theory Spec2Isabelle
  imports
    Main
    "HOL-Library.Word"
    "HOL-Library.Multiset"
    "HOL-Library.Signed_Division"
    "HOL-Library.Product_Lexorder"
begin

section \<open>PoolWithFailoverBase: a pool of nested pools with failover\<close>

text \<open>
  The development follows the header that defines \<^verbatim>\<open>ResourceTracker\<close> and the class template
  \<^verbatim>\<open>PoolWithFailoverBase\<close>.  Mutable objects become records that are passed in and
  returned; the three things the class takes from outside (the wall clock \<^verbatim>\<open>time(0)\<close>, the
  per-pool generator \<^verbatim>\<open>lrand48_r\<close>, the virtual method \<^verbatim>\<open>tryGet\<close>) are inputs of the model.
  The model is sequential: one thread calls the pool.  The constructors (which seed the
  generators) are left out.  Of the allocations, the one whose size the caller chooses,
  \<^verbatim>\<open>connections.reserve(max_connections)\<close> in \<open>getMany\<close>, is modelled with its two
  exceptions; the others have the size of \<open>nested_pools\<close> or of a message, and the model
  takes them to succeed.
\<close>

type_synonym UInt64 = "64 word"
type_synonym UInt32 = "32 word"

text \<open>
  \<^verbatim>\<open>time_t\<close> values are mathematical integers: the only arithmetic on them is one subtraction
  of two clock readings and one division.  \<^verbatim>\<open>size_t\<close> values are natural numbers below
  \<open>2 ^ 64\<close>; the two places where a \<^verbatim>\<open>size_t\<close> could wrap are written out.
\<close>

type_synonym time_t = int
type_synonym size_t = nat

subsection \<open>ResourceTracker\<close>

record ResourceTracker =
  handles :: "size_t list"
  unallocated_size :: size_t

text \<open>The constructor: \<^verbatim>\<open>handles(s), unallocated_size(s)\<close>, then \<^verbatim>\<open>handles[i] = i\<close>.\<close>

definition new_ResourceTracker :: "size_t \<Rightarrow> ResourceTracker" where
  "new_ResourceTracker s = \<lparr>handles = [0..<s], unallocated_size = s\<rparr>"

definition getHandle :: "ResourceTracker \<Rightarrow> size_t \<Rightarrow> size_t" where
  "getHandle t i = handles t ! i"

definition getUnallocatedSize :: "ResourceTracker \<Rightarrow> size_t" where
  "getUnallocatedSize t = unallocated_size t"

text \<open>\<^verbatim>\<open>--unallocated_size\<close> on a \<^verbatim>\<open>size_t\<close>: zero wraps to the largest value.\<close>

definition size_t_decrement :: "size_t \<Rightarrow> size_t" where
  "size_t_decrement n = (if n = 0 then 2 ^ 64 - 1 else n - 1)"

text \<open>
  \<^verbatim>\<open>std::swap(handles[i], handles[unallocated_size - 1]); --unallocated_size;\<close>
  The class makes no bounds checks (its comment says so); the callers keep \<open>i\<close> below
  \<open>unallocated_size\<close>, and \<open>unallocated_size\<close> at most the length of \<open>handles\<close>.
\<close>

definition markAsAllocated :: "ResourceTracker \<Rightarrow> size_t \<Rightarrow> ResourceTracker" where
  "markAsAllocated t i =
     (let j = size_t_decrement (unallocated_size t);
          hi = handles t ! i;
          hj = handles t ! j
      in t\<lparr>handles := (handles t)[i := hj, j := hi], unallocated_size := j\<rparr>)"

text \<open>The operations a client of the tracker can perform, and a run of them.\<close>

datatype TrackerOp = GetHandle size_t | MarkAsAllocated size_t

fun valid_op :: "ResourceTracker \<Rightarrow> TrackerOp \<Rightarrow> bool" where
  "valid_op t (GetHandle i) = (i < unallocated_size t)"
| "valid_op t (MarkAsAllocated i) = (i < unallocated_size t)"

fun apply_op :: "ResourceTracker \<Rightarrow> TrackerOp \<Rightarrow> ResourceTracker" where
  "apply_op t (GetHandle i) = t"
| "apply_op t (MarkAsAllocated i) = markAsAllocated t i"

fun valid_ops :: "ResourceTracker \<Rightarrow> TrackerOp list \<Rightarrow> bool" where
  "valid_ops t [] = True"
| "valid_ops t (x # xs) = (valid_op t x \<and> valid_ops (apply_op t x) xs)"

fun apply_ops :: "ResourceTracker \<Rightarrow> TrackerOp list \<Rightarrow> ResourceTracker" where
  "apply_ops t [] = t"
| "apply_ops t (x # xs) = apply_ops (apply_op t x) xs"

subsection \<open>PoolWithErrorCount and its State\<close>

record State =
  priority :: int
  error_count :: UInt64
  random :: UInt32

text \<open>
  \<^verbatim>\<open>std::tie(lhs.priority, lhs.error_count, lhs.random) < std::tie(rhs...)\<close>: the
  lexicographic order of triples; the two counters compare as unsigned numbers.
\<close>

definition compare :: "State \<Rightarrow> State \<Rightarrow> bool" where
  "compare lhs rhs =
     ((priority lhs, error_count lhs, random lhs) < (priority rhs, error_count rhs, random rhs))"

text \<open>
  A \<^verbatim>\<open>PoolWithErrorCount\<close> is kept as its \<open>state\<close>.  Its \<^verbatim>\<open>pool\<close> pointer never changes and is
  represented by the position of the element in \<open>nested_pools\<close>; its \<^verbatim>\<open>rand_state\<close> is
  replaced by the value that \<^verbatim>\<open>lrand48_r\<close> yields, an input of \<open>randomize\<close>.
\<close>

record PoolWithErrorCount =
  state :: State

definition randomize :: "UInt32 \<Rightarrow> PoolWithErrorCount \<Rightarrow> PoolWithErrorCount" where
  "randomize rand_res p = p\<lparr>state := (state p)\<lparr>random := rand_res\<rparr>\<rparr>"

subsection \<open>PoolsWithErrorCount\<close>

record PoolsWithErrorCount =
  pools :: "PoolWithErrorCount list"
  last_decrease_time :: time_t
  decrease_error_period :: time_t

text \<open>What one call of \<open>update\<close> reads from outside: the clock and one draw per pool.\<close>

record Env =
  now :: time_t
  rand_res :: "size_t \<Rightarrow> UInt32"

text \<open>
  An integer division by zero has no defined result in C++ (the process receives SIGFPE on
  the usual targets); it is the one fault of the model.
\<close>

datatype fault = DivisionByZero

definition sizeof_UInt64 :: size_t where
  "sizeof_UInt64 = 8"

text \<open>
  \<^verbatim>\<open>size_t shift_amount = delta / decrease_error_period;\<close>  The quotient of two \<^verbatim>\<open>time_t\<close>
  truncates towards zero and is then converted to \<^verbatim>\<open>size_t\<close>, modulo \<open>2 ^ 64\<close>.
\<close>

definition shift_amount_of :: "time_t \<Rightarrow> time_t \<Rightarrow> size_t" where
  "shift_amount_of delta period = nat ((delta sdiv period) mod 2 ^ 64)"

definition set_error_count :: "UInt64 \<Rightarrow> PoolWithErrorCount \<Rightarrow> PoolWithErrorCount" where
  "set_error_count v p = p\<lparr>state := (state p)\<lparr>error_count := v\<rparr>\<rparr>"

definition shift_error_count :: "size_t \<Rightarrow> PoolWithErrorCount \<Rightarrow> PoolWithErrorCount" where
  "shift_error_count n p = set_error_count (drop_bit n (error_count (state p))) p"

definition update :: "Env \<Rightarrow> PoolsWithErrorCount \<Rightarrow> fault + (State list \<times> PoolsWithErrorCount)" where
  "update env this =
     (let randomized = map2 (\<lambda>i p. randomize (rand_res env i) p)
                            [0..<length (pools this)] (pools this);
          current_time = now env
      in if last_decrease_time this \<noteq> 0 then
           (let delta = current_time - last_decrease_time this
            in if delta \<ge> 0 then
                 (if decrease_error_period this = 0 then Inl DivisionByZero
                  else
                    (let shift_amount = shift_amount_of delta (decrease_error_period this);
                         ldt = (if shift_amount \<noteq> 0 then current_time
                                else last_decrease_time this);
                         decayed =
                           (if shift_amount \<ge> sizeof_UInt64
                              then map (set_error_count 0) randomized
                            else if shift_amount \<noteq> 0
                              then map (shift_error_count shift_amount) randomized
                            else randomized)
                     in Inr (map state decayed,
                             this\<lparr>pools := decayed, last_decrease_time := ldt\<rparr>)))
               else Inr (map state randomized, this\<lparr>pools := randomized\<rparr>))
         else Inr (map state randomized,
                   this\<lparr>pools := randomized, last_decrease_time := current_time\<rparr>))"

subsection \<open>Settings, the acquisition hook and the state of the system\<close>

text \<open>
  The two fields of \<^verbatim>\<open>DB::Settings\<close> that the class reads, both converted with \<^verbatim>\<open>UInt64(...)\<close>.
  A null \<^verbatim>\<open>settings\<close> pointer is \<open>None\<close>.
\<close>

record Settings =
  max_parallel_replicas :: UInt64
  skip_unavailable_shards :: UInt64

text \<open>
  An \<^verbatim>\<open>Entry\<close> is \<open>'c option\<close>: \<open>None\<close> is the default-constructed entry.  One call of
  \<^verbatim>\<open>tryGet(pool, settings, out_entry, fail_message)\<close> returns its boolean, what it left in
  \<^verbatim>\<open>out_entry\<close> and what it wrote to the fresh \<^verbatim>\<open>fail_message\<close> stream.  The nested pool is
  passed as its index in \<open>nested_pools\<close>; the hook has a state \<open>'h\<close> of its own, so its
  answers may depend on everything that happened before.
\<close>

record 'c TryResult =
  ok :: bool
  out_entry :: "'c option"
  fail_message :: string

type_synonym ('c, 'h) tryGet_method =
  "size_t \<Rightarrow> Settings option \<Rightarrow> 'c option \<Rightarrow> 'h \<Rightarrow> 'c TryResult \<times> 'h"

record ('c, 'h) PoolWithFailoverBase =
  max_tries :: size_t
  tryGet :: "('c, 'h) tryGet_method"

text \<open>
  Everything a call can change: the nested pools, the state of the hook, the two profile
  events, the warnings written to the log (try number and reason), and the sequence of
  \<^verbatim>\<open>tryGet\<close> calls made so far, each recorded as \<^verbatim>\<open>try_no\<close> and the index of the pool.
\<close>

record 'h Sys =
  nested_pools :: PoolsWithErrorCount
  hook_state :: 'h
  tryGet_calls :: "(size_t \<times> size_t) list"
  DistributedConnectionFailTry :: nat
  DistributedConnectionFailAtAll :: nat
  log_warnings :: "(size_t \<times> string) list"

text \<open>
  Modelled from the spec: \<^verbatim>\<open>ProfileEvents::increment\<close> and the type \<^verbatim>\<open>Count\<close> are declared in
  ProfileEvents.h, which is not among the sources (ProfileEvents.cpp only defines the array
  of counters).  The spec describes the counters as monotonically increasing and
  incremented once per event.
\<close>

definition increment :: "nat \<Rightarrow> nat" where
  "increment c = c + 1"

text \<open>\<^verbatim>\<open>__sync_fetch_and_add(&pool->state.error_count, 1)\<close> on the pool at \<open>pool_index\<close>.\<close>

definition add_error :: "size_t \<Rightarrow> PoolsWithErrorCount \<Rightarrow> PoolsWithErrorCount" where
  "add_error pool_index ps =
     ps\<lparr>pools := (pools ps)[pool_index :=
           set_error_count (error_count (state (pools ps ! pool_index)) + 1)
             (pools ps ! pool_index)]\<rparr>"

definition endl :: string where
  "endl = [CHR 0x0A]"

subsection \<open>getResource\<close>

text \<open>
  The local struct of \<^verbatim>\<open>getResource\<close>.  \<open>pool\<close> stands for \<^verbatim>\<open>&nested_pools[pool_index]\<close> and
  holds \<open>pool_index\<close>; \<open>state_snapshot\<close> stands for \<^verbatim>\<open>&states[pool_index]\<close> and holds the
  value, since \<^verbatim>\<open>states\<close> is not written after \<open>update\<close> returned it; \<open>index\<close> is the
  position in the tracker (or in \<open>nested_pools\<close> when there is no tracker).
\<close>

record IndexedPoolWithErrorCount =
  pool :: size_t
  state_snapshot :: State
  index :: size_t

text \<open>The by-reference arguments \<^verbatim>\<open>entry\<close> and \<^verbatim>\<open>fail_messages\<close>, and the system.\<close>

record ('c, 'h) Ctx =
  entry :: "'c option"
  fail_messages :: string
  sys :: "'h Sys"

text \<open>
  The inner loop \<^verbatim>\<open>for (size_t i = 0; i < pools_size; ++i)\<close> over the sorted \<^verbatim>\<open>pool_ptrs\<close>.
  It stops at the first pool whose \<^verbatim>\<open>tryGet\<close> succeeds and returns that element.
\<close>

fun probe_pools ::
  "('c, 'h) PoolWithFailoverBase \<Rightarrow> Settings option \<Rightarrow> size_t \<Rightarrow>
   IndexedPoolWithErrorCount list \<Rightarrow> ('c, 'h) Ctx \<Rightarrow>
   IndexedPoolWithErrorCount option \<times> ('c, 'h) Ctx" where
  "probe_pools P settings try_no [] c = (None, c)"
| "probe_pools P settings try_no (r # rs) c =
     (let (res, h) = tryGet P (pool r) settings (entry c) (hook_state (sys c));
          called = (sys c)\<lparr>hook_state := h,
                           tryGet_calls := tryGet_calls (sys c) @ [(try_no, pool r)]\<rparr>
      in if ok res then (Some r, c\<lparr>entry := out_entry res, sys := called\<rparr>)
         else probe_pools P settings try_no rs
                (c\<lparr>entry := out_entry res,
                   fail_messages := fail_messages c @ fail_message res @ endl,
                   sys := called\<lparr>
                     DistributedConnectionFailTry :=
                       increment (DistributedConnectionFailTry called),
                     log_warnings := log_warnings called @ [(try_no + 1, fail_message res)],
                     nested_pools := add_error (pool r) (nested_pools called)\<rparr>\<rparr>))"

text \<open>The outer loop \<^verbatim>\<open>for (size_t try_no = 0; try_no < max_tries; ++try_no)\<close>.\<close>

function try_loop ::
  "('c, 'h) PoolWithFailoverBase \<Rightarrow> Settings option \<Rightarrow> IndexedPoolWithErrorCount list \<Rightarrow>
   size_t \<Rightarrow> ('c, 'h) Ctx \<Rightarrow> IndexedPoolWithErrorCount option \<times> ('c, 'h) Ctx" where
  "try_loop P settings pool_ptrs try_no c =
     (if try_no < max_tries P then
        (case probe_pools P settings try_no pool_ptrs c of
           (Some r, c') \<Rightarrow> (Some r, c')
         | (None, c') \<Rightarrow> try_loop P settings pool_ptrs (Suc try_no) c')
      else (None, c))"
  by pat_completeness auto
termination
  by (relation "measure (\<lambda>(P, settings, pool_ptrs, try_no, c). max_tries P - try_no)") auto

declare try_loop.simps [simp del]

text \<open>
  \<^verbatim>\<open>std::sort\<close> is a parameter \<open>std_sort\<close> of the model.  The standard promises a permutation
  of its input in which no element compares less than an earlier one, and leaves the
  order of equivalent elements open; \<open>sort_contract\<close> says exactly that.
\<close>

type_synonym sort_fn = "IndexedPoolWithErrorCount list \<Rightarrow> IndexedPoolWithErrorCount list"

definition sort_contract :: "sort_fn \<Rightarrow> bool" where
  "sort_contract std_sort =
     (\<forall>xs. mset (std_sort xs) = mset xs \<and>
           sorted_wrt (\<lambda>a b. \<not> compare (state_snapshot b) (state_snapshot a)) (std_sort xs))"

text \<open>One sorting function that meets the contract: the stable insertion sort on the triple.\<close>

definition sort_key_of :: "IndexedPoolWithErrorCount \<Rightarrow> int \<times> UInt64 \<times> UInt32" where
  "sort_key_of r =
     (priority (state_snapshot r), error_count (state_snapshot r), random (state_snapshot r))"

definition insertion_sort :: sort_fn where
  "insertion_sort xs = sort_key sort_key_of xs"

definition make_pool_ptrs ::
  "ResourceTracker option \<Rightarrow> State list \<Rightarrow> size_t \<Rightarrow> IndexedPoolWithErrorCount list" where
  "make_pool_ptrs resource_tracker states pools_size =
     map (\<lambda>i. let pool_index = (case resource_tracker of
                                   Some t \<Rightarrow> getHandle t i
                                 | None \<Rightarrow> i)
              in \<lparr>pool = pool_index, state_snapshot = states ! pool_index, index = i\<rparr>)
         [0..<pools_size]"

text \<open>
  \<^verbatim>\<open>getResource\<close> returns \<open>Some pool_index\<close> where the C++ returns \<^verbatim>\<open>true\<close> (the index of the
  nested pool whose \<^verbatim>\<open>tryGet\<close> succeeded) and \<open>None\<close> where it returns \<^verbatim>\<open>false\<close>, together
  with the tracker and the by-reference arguments as it leaves them.
\<close>

definition getResource ::
  "sort_fn \<Rightarrow> ('c, 'h) PoolWithFailoverBase \<Rightarrow> Settings option \<Rightarrow> Env \<Rightarrow>
   ResourceTracker option \<Rightarrow> ('c, 'h) Ctx \<Rightarrow>
   fault + (size_t option \<times> ResourceTracker option \<times> ('c, 'h) Ctx)" where
  "getResource std_sort P settings env resource_tracker c =
     (case update env (nested_pools (sys c)) of
        Inl f \<Rightarrow> Inl f
      | Inr (states, updated) \<Rightarrow>
          (let c0 = c\<lparr>sys := (sys c)\<lparr>nested_pools := updated\<rparr>\<rparr>;
               pools_size = (case resource_tracker of
                               Some t \<Rightarrow> getUnallocatedSize t
                             | None \<Rightarrow> length (pools updated));
               pool_ptrs = std_sort (make_pool_ptrs resource_tracker states pools_size)
           in case try_loop P settings pool_ptrs 0 c0 of
                (Some r, c') \<Rightarrow>
                  Inr (Some (pool r),
                       map_option (\<lambda>t. markAsAllocated t (index r)) resource_tracker, c')
              | (None, c') \<Rightarrow>
                  Inr (None, resource_tracker,
                       c'\<lparr>sys := (sys c')\<lparr>DistributedConnectionFailAtAll :=
                             increment (DistributedConnectionFailAtAll (sys c'))\<rparr>\<rparr>)))"

subsection \<open>get and getMany\<close>

datatype ErrorCode = ALL_CONNECTION_TRIES_FAILED

text \<open>
  The exceptions that leave \<open>get\<close> and \<open>getMany\<close>: the \<^verbatim>\<open>DB::NetException\<close> that they throw
  themselves, and \<^verbatim>\<open>std::length_error\<close> and \<^verbatim>\<open>std::bad_alloc\<close> from \<^verbatim>\<open>std::vector::reserve\<close>.
\<close>

datatype exception = NetException string ErrorCode | length_error | bad_alloc

definition all_tries_failed :: "string \<Rightarrow> exception" where
  "all_tries_failed fail_messages_str =
     NetException (''All connection tries failed. Log: '' @ endl @ endl @ fail_messages_str @ endl)
                  ALL_CONNECTION_TRIES_FAILED"

definition skip_unavailable_of :: "Settings option \<Rightarrow> bool" where
  "skip_unavailable_of settings =
     (case settings of Some s \<Rightarrow> skip_unavailable_shards s \<noteq> 0 | None \<Rightarrow> False)"

definition max_connections_of :: "Settings option \<Rightarrow> nat" where
  "max_connections_of settings =
     (case settings of Some s \<Rightarrow> unat (max_parallel_replicas s) | None \<Rightarrow> 1)"

definition fresh :: "'h Sys \<Rightarrow> ('c, 'h) Ctx" where
  "fresh s = \<lparr>entry = None, fail_messages = [], sys = s\<rparr>"

text \<open>
  A call either faults, or it ends (by \<^verbatim>\<open>return\<close>, \<open>Inr\<close>, or by \<^verbatim>\<open>throw\<close>, \<open>Inl\<close>) and leaves
  a system state behind.
\<close>

definition get ::
  "sort_fn \<Rightarrow> ('c, 'h) PoolWithFailoverBase \<Rightarrow> Settings option \<Rightarrow> Env \<Rightarrow> 'h Sys \<Rightarrow>
   fault + ((exception + 'c option) \<times> 'h Sys)" where
  "get std_sort P settings env s =
     (let skip_unavailable = skip_unavailable_of settings
      in case getResource std_sort P settings env None (fresh s) of
           Inl f \<Rightarrow> Inl f
         | Inr (Some i, t, c) \<Rightarrow> Inr (Inr (entry c), sys c)
         | Inr (None, t, c) \<Rightarrow>
             if \<not> skip_unavailable then Inr (Inl (all_tries_failed (fail_messages c)), sys c)
             else Inr (Inr None, sys c))"

text \<open>
  \<^verbatim>\<open>connections.reserve(max_connections)\<close> on the empty vector \<^verbatim>\<open>connections\<close>.  The standard
  library throws \<^verbatim>\<open>std::length_error\<close> when the request exceeds \<^verbatim>\<open>max_size()\<close>; a request of
  zero elements needs no memory; any other request allocates and throws \<^verbatim>\<open>std::bad_alloc\<close>
  when the memory is not to be had.  \<^verbatim>\<open>max_size()\<close> of a vector of entries and the memory at
  hand are not fixed by the sources; they are the two fields of an \<open>Allocator\<close>, a
  parameter of \<open>getMany\<close>.  \<open>None\<close> means that \<^verbatim>\<open>reserve\<close> returned.
\<close>

record Allocator =
  vector_max_size :: size_t
  can_allocate :: "size_t \<Rightarrow> bool"

definition reserve :: "Allocator \<Rightarrow> size_t \<Rightarrow> exception option" where
  "reserve alloc n =
     (if n > vector_max_size alloc then Some length_error
      else if n > 0 \<and> \<not> can_allocate alloc n then Some bad_alloc
      else None)"

text \<open>
  The loop of \<^verbatim>\<open>getMany\<close>.  Iteration \<open>i\<close> reads the clock and the generators as \<open>envs i\<close>.
  Each collected entry is paired with the index of the nested pool that produced it: the
  replica of the connection.
\<close>

function getMany_loop ::
  "sort_fn \<Rightarrow> ('c, 'h) PoolWithFailoverBase \<Rightarrow> Settings option \<Rightarrow> (nat \<Rightarrow> Env) \<Rightarrow>
   nat \<Rightarrow> ResourceTracker option \<Rightarrow> (size_t \<times> 'c option) list \<Rightarrow> 'h Sys \<Rightarrow>
   fault + ((exception + (size_t \<times> 'c option) list) \<times> 'h Sys)" where
  "getMany_loop std_sort P settings envs i resource_tracker connections s =
     (if i < max_connections_of settings then
        (case getResource std_sort P settings (envs i) resource_tracker (fresh s) of
           Inl f \<Rightarrow> Inl f
         | Inr (Some p, t, c) \<Rightarrow>
             getMany_loop std_sort P settings envs (Suc i) t (connections @ [(p, entry c)]) (sys c)
         | Inr (None, t, c) \<Rightarrow>
             if i = 0 \<and> \<not> skip_unavailable_of settings
               then Inr (Inl (all_tries_failed (fail_messages c)), sys c)
             else Inr (Inr connections, sys c))
      else Inr (Inr connections, s))"
  by pat_completeness auto
termination
  by (relation "measure (\<lambda>(std_sort, P, settings, envs, i, t, connections, s).
                            max_connections_of settings - i)") auto

declare getMany_loop.simps [simp del]

text \<open>
  \<open>getMany\<close>: the tracker is constructed, the two settings are read, \<^verbatim>\<open>connections\<close> reserves
  room for \<^verbatim>\<open>max_connections\<close> entries, and then the loop runs.  An exception of \<^verbatim>\<open>reserve\<close>
  leaves \<open>getMany\<close> before the first \<open>getResource\<close>, with the system untouched.
\<close>

definition getMany ::
  "Allocator \<Rightarrow> sort_fn \<Rightarrow> ('c, 'h) PoolWithFailoverBase \<Rightarrow> Settings option \<Rightarrow>
   (nat \<Rightarrow> Env) \<Rightarrow> 'h Sys \<Rightarrow>
   fault + ((exception + (size_t \<times> 'c option) list) \<times> 'h Sys)" where
  "getMany alloc std_sort P settings envs s =
     (let resource_tracker = new_ResourceTracker (length (pools (nested_pools s)));
          max_connections = max_connections_of settings
      in case reserve alloc max_connections of
           Some e \<Rightarrow> Inr (Inl e, s)
         | None \<Rightarrow>
             getMany_loop std_sort P settings envs 0 (Some resource_tracker) [] s)"

subsection \<open>Notions used in the statements and proofs\<close>

text \<open>The error counters of all nested pools, in order.\<close>

definition error_counts :: "PoolsWithErrorCount \<Rightarrow> UInt64 list" where
  "error_counts ps = map (\<lambda>p. error_count (state p)) (pools ps)"

text \<open>The pools after the loop \<^verbatim>\<open>for (auto & pool : *this) pool.randomize();\<close> of \<open>update\<close>.\<close>

definition randomized_pools :: "Env \<Rightarrow> PoolWithErrorCount list \<Rightarrow> PoolWithErrorCount list" where
  "randomized_pools env ps = map2 (\<lambda>i p. randomize (rand_res env i) p) [0..<length ps] ps"

text \<open>The tracker's counter stays within its vector.\<close>

definition tracker_wf :: "ResourceTracker \<Rightarrow> bool" where
  "tracker_wf t = (unallocated_size t \<le> length (handles t))"

text \<open>
  The invariant of the loop of \<open>getMany\<close>: the handles are distinct, and the replicas
  \<open>taken\<close> so far are distinct and are the handles from \<open>unallocated_size\<close> on.
\<close>

definition tracker_inv :: "ResourceTracker \<Rightarrow> size_t list \<Rightarrow> bool" where
  "tracker_inv t taken =
     (tracker_wf t \<and> distinct (handles t) \<and> distinct taken \<and>
      set taken = set (drop (unallocated_size t) (handles t)))"

text \<open>
  Three steps of \<open>getResource\<close> by name: the value of its local \<^verbatim>\<open>pools_size\<close>, the context
  once \<open>update\<close> has written the pools, and the increment before \<^verbatim>\<open>return false\<close>.
\<close>

definition pools_size_of :: "ResourceTracker option \<Rightarrow> PoolsWithErrorCount \<Rightarrow> size_t" where
  "pools_size_of tr ps = (case tr of Some t \<Rightarrow> getUnallocatedSize t | None \<Rightarrow> length (pools ps))"

definition with_pools :: "PoolsWithErrorCount \<Rightarrow> ('c, 'h) Ctx \<Rightarrow> ('c, 'h) Ctx" where
  "with_pools ps c = c\<lparr>sys := (sys c)\<lparr>nested_pools := ps\<rparr>\<rparr>"

definition count_fail_at_all :: "('c, 'h) Ctx \<Rightarrow> ('c, 'h) Ctx" where
  "count_fail_at_all c = c\<lparr>sys := (sys c)\<lparr>DistributedConnectionFailAtAll :=
                             increment (DistributedConnectionFailAtAll (sys c))\<rparr>\<rparr>"

text \<open>
  What the loops of \<open>getResource\<close> change between a context \<open>c\<close> and a later one \<open>c'\<close>: they
  make the \<^verbatim>\<open>tryGet\<close> calls \<open>calls\<close> and log the warnings \<open>msgs\<close>, one per failed call; each
  reason goes to \<^verbatim>\<open>fail_messages\<close> with a newline and counts one
  \<^verbatim>\<open>DistributedConnectionFailTry\<close>; the rest of what the statements look at is unchanged.
\<close>

definition loop_effect ::
  "('c, 'h) Ctx \<Rightarrow> ('c, 'h) Ctx \<Rightarrow> (size_t \<times> size_t) list \<Rightarrow> (size_t \<times> string) list \<Rightarrow> bool" where
  "loop_effect c c' calls msgs =
     (tryGet_calls (sys c') = tryGet_calls (sys c) @ calls \<and>
      log_warnings (sys c') = log_warnings (sys c) @ msgs \<and>
      fail_messages c' = fail_messages c @ concat (map (\<lambda>m. snd m @ endl) msgs) \<and>
      DistributedConnectionFailTry (sys c') = DistributedConnectionFailTry (sys c) + length msgs \<and>
      DistributedConnectionFailAtAll (sys c') = DistributedConnectionFailAtAll (sys c) \<and>
      length (pools (nested_pools (sys c'))) = length (pools (nested_pools (sys c))) \<and>
      last_decrease_time (nested_pools (sys c')) = last_decrease_time (nested_pools (sys c)) \<and>
      decrease_error_period (nested_pools (sys c')) = decrease_error_period (nested_pools (sys c)))"

text \<open>
  The calls of \<open>m\<close> full rounds over \<open>rs\<close>, numbered from \<open>t\<close>, followed by a round that
  stops after \<open>n\<close> pools.
\<close>

definition rounds ::
  "IndexedPoolWithErrorCount list \<Rightarrow> size_t \<Rightarrow> size_t \<Rightarrow> size_t \<Rightarrow> (size_t \<times> size_t) list" where
  "rounds rs t m n =
     concat (map (\<lambda>k. map (\<lambda>r. (k, pool r)) rs) [t..<t + m]) @ map (\<lambda>r. (t + m, pool r)) (take n rs)"

text \<open>The pools probed in round \<open>t\<close>, in the order of the calls.\<close>

definition round_probes :: "size_t \<Rightarrow> (size_t \<times> size_t) list \<Rightarrow> size_t list" where
  "round_probes t calls = map snd (filter (\<lambda>x. fst x = t) calls)"

text \<open>
  The indices of the nested pools that one \<open>getResource\<close> considers: all \<open>N\<close> of them
  without a tracker, the unallocated handles with one.
\<close>

definition candidates :: "ResourceTracker option \<Rightarrow> size_t \<Rightarrow> size_t list" where
  "candidates tr N =
     (case tr of None \<Rightarrow> [0..<N] | Some t \<Rightarrow> take (unallocated_size t) (handles t))"

subsection \<open>Concrete pools, settings and clocks\<close>

text \<open>
  Three hooks: one that refuses every connection, one that refuses on pool 0 only, one
  that always connects.  Each counts its calls in its state.
\<close>

definition failing_pool :: "(unit, nat) PoolWithFailoverBase" where
  "failing_pool = \<lparr>max_tries = 3,
     tryGet = (\<lambda>i settings e h.
        (\<lparr>ok = False, out_entry = None, fail_message = ''refused''\<rparr>, Suc h))\<rparr>"

definition flaky_pool :: "(nat, nat) PoolWithFailoverBase" where
  "flaky_pool = \<lparr>max_tries = 2,
     tryGet = (\<lambda>i settings e h.
        if i = 0 then (\<lparr>ok = False, out_entry = None, fail_message = ''refused''\<rparr>, Suc h)
        else (\<lparr>ok = True, out_entry = Some i, fail_message = []\<rparr>, Suc h))\<rparr>"

definition reliable_pool :: "(nat, nat) PoolWithFailoverBase" where
  "reliable_pool = \<lparr>max_tries = 2,
     tryGet = (\<lambda>i settings e h. (\<lparr>ok = True, out_entry = Some i, fail_message = []\<rparr>, Suc h))\<rparr>"

text \<open>Freshly constructed systems with zero, one, two and three nested pools.\<close>

definition no_replicas :: "nat Sys" where
  "no_replicas =
     \<lparr>nested_pools = \<lparr>pools = [], last_decrease_time = 0, decrease_error_period = 300\<rparr>,
      hook_state = 0, tryGet_calls = [], DistributedConnectionFailTry = 0,
      DistributedConnectionFailAtAll = 0, log_warnings = []\<rparr>"

definition one_replica :: "nat Sys" where
  "one_replica =
     \<lparr>nested_pools = \<lparr>pools = [\<lparr>state = \<lparr>priority = 0, error_count = 0, random = 0\<rparr>\<rparr>],
                      last_decrease_time = 0, decrease_error_period = 300\<rparr>,
      hook_state = 0, tryGet_calls = [], DistributedConnectionFailTry = 0,
      DistributedConnectionFailAtAll = 0, log_warnings = []\<rparr>"

definition two_priorities :: "nat Sys" where
  "two_priorities =
     \<lparr>nested_pools = \<lparr>pools = [\<lparr>state = \<lparr>priority = 1, error_count = 0, random = 0\<rparr>\<rparr>,
                               \<lparr>state = \<lparr>priority = 0, error_count = 0, random = 0\<rparr>\<rparr>],
                      last_decrease_time = 0, decrease_error_period = 300\<rparr>,
      hook_state = 0, tryGet_calls = [], DistributedConnectionFailTry = 0,
      DistributedConnectionFailAtAll = 0, log_warnings = []\<rparr>"

definition three_replicas :: "nat Sys" where
  "three_replicas =
     \<lparr>nested_pools = \<lparr>pools = replicate 3 \<lparr>state = \<lparr>priority = 0, error_count = 0, random = 0\<rparr>\<rparr>,
                      last_decrease_time = 0, decrease_error_period = 300\<rparr>,
      hook_state = 0, tryGet_calls = [], DistributedConnectionFailTry = 0,
      DistributedConnectionFailAtAll = 0, log_warnings = []\<rparr>"

text \<open>
  Settings (\<open>all_replicas\<close> asks for \<open>2 ^ 64 - 1\<close> connections), and a clock that reads noon
  of the first day with every draw equal to 5.
\<close>

definition skipping :: "Settings" where
  "skipping = \<lparr>max_parallel_replicas = 1, skip_unavailable_shards = 1\<rparr>"

definition two_connections :: Settings where
  "two_connections = \<lparr>max_parallel_replicas = 2, skip_unavailable_shards = 0\<rparr>"

definition five_connections :: Settings where
  "five_connections = \<lparr>max_parallel_replicas = 5, skip_unavailable_shards = 0\<rparr>"

definition all_replicas :: Settings where
  "all_replicas = \<lparr>max_parallel_replicas = 18446744073709551615, skip_unavailable_shards = 0\<rparr>"

text \<open>
  An allocator for entries of 16 bytes (\<^verbatim>\<open>max_size()\<close> is \<open>2 ^ 59 - 1\<close>) with memory for a
  million of them.
\<close>

definition small_memory :: Allocator where
  "small_memory = \<lparr>vector_max_size = 2 ^ 59 - 1, can_allocate = (\<lambda>n. n \<le> 1000000)\<rparr>"

definition at_noon :: Env where
  "at_noon = \<lparr>now = 43200, rand_res = (\<lambda>i. 5)\<rparr>"

definition always_noon :: "nat \<Rightarrow> Env" where
  "always_noon i = at_noon"

section \<open>Properties\<close>

subsection \<open>ResourceTracker keeps its handles\<close>

lemma markAsAllocated_handles:
  assumes "i < unallocated_size t" and "tracker_wf t"
  shows "mset (handles (markAsAllocated t i)) = mset (handles t)"
    and "length (handles (markAsAllocated t i)) = length (handles t)"
    and "unallocated_size (markAsAllocated t i) = unallocated_size t - 1"
    and "tracker_wf (markAsAllocated t i)"
proof -
  let ?j = "unallocated_size t - 1"
  have j: "size_t_decrement (unallocated_size t) = ?j"
    using assms(1) by (simp add: size_t_decrement_def)
  have "i < length (handles t)" "?j < length (handles t)"
    using assms by (simp_all add: tracker_wf_def)
  then show "mset (handles (markAsAllocated t i)) = mset (handles t)"
    by (simp add: markAsAllocated_def j Let_def mset_swap)
  show "length (handles (markAsAllocated t i)) = length (handles t)"
    by (simp add: markAsAllocated_def Let_def)
  show "unallocated_size (markAsAllocated t i) = unallocated_size t - 1"
    by (simp add: markAsAllocated_def j Let_def)
  then show "tracker_wf (markAsAllocated t i)"
    using assms by (simp add: tracker_wf_def markAsAllocated_def Let_def)
qed

lemma apply_ops_handles:
  "tracker_wf t \<Longrightarrow> valid_ops t ops \<Longrightarrow>
   mset (handles (apply_ops t ops)) = mset (handles t) \<and>
   length (handles (apply_ops t ops)) = length (handles t) \<and>
   tracker_wf (apply_ops t ops)"
proof (induction ops arbitrary: t)
  case Nil
  then show ?case by simp
next
  case (Cons x xs)
  show ?case
  proof (cases x)
    case (GetHandle i)
    with Cons show ?thesis by simp
  next
    case (MarkAsAllocated i)
    with Cons.prems have i: "i < unallocated_size t" and v: "valid_ops (markAsAllocated t i) xs"
      by simp_all
    note m = markAsAllocated_handles [OF i Cons.prems(1)]
    from Cons.IH [OF m(4) v] m(1,2) MarkAsAllocated show ?thesis by simp
  qed
qed

text \<open>
  Claim C6.  After \<open>new_ResourceTracker N\<close> and any run of \<open>getHandle\<close> and
  \<open>markAsAllocated\<close> calls whose indices are below \<open>unallocated_size\<close> at the time of the
  call, \<open>handles\<close> still has \<open>N\<close> elements and, as a multiset, is \<open>{0, ..., N - 1}\<close>: no
  handle is lost or duplicated.
\<close>

theorem tracker_handles_permutation:
  "valid_ops (new_ResourceTracker N) ops \<Longrightarrow>
   mset (handles (apply_ops (new_ResourceTracker N) ops)) = mset [0..<N] \<and>
   length (handles (apply_ops (new_ResourceTracker N) ops)) = N"
  using apply_ops_handles [of "new_ResourceTracker N" ops]
  by (simp add: new_ResourceTracker_def tracker_wf_def)

theorem tracker_handles_permutation_witness:
  "valid_ops (new_ResourceTracker 3)
     [GetHandle 2, MarkAsAllocated 0, GetHandle 1, MarkAsAllocated 1] \<and>
   handles (apply_ops (new_ResourceTracker 3)
     [GetHandle 2, MarkAsAllocated 0, GetHandle 1, MarkAsAllocated 1]) = [2, 1, 0] \<and>
   mset (handles (apply_ops (new_ResourceTracker 3)
     [GetHandle 2, MarkAsAllocated 0, GetHandle 1, MarkAsAllocated 1])) = mset [0..<3]"
proof -
  have v: "valid_ops (new_ResourceTracker 3)
             [GetHandle 2, MarkAsAllocated 0, GetHandle 1, MarkAsAllocated 1]"
    by (simp add: new_ResourceTracker_def markAsAllocated_def size_t_decrement_def upt_rec)
  have h: "handles (apply_ops (new_ResourceTracker 3)
             [GetHandle 2, MarkAsAllocated 0, GetHandle 1, MarkAsAllocated 1]) = [2, 1, 0]"
    by (simp add: new_ResourceTracker_def markAsAllocated_def size_t_decrement_def upt_rec)
  from v h tracker_handles_permutation [OF v] show ?thesis by simp
qed

subsection \<open>The branches of update\<close>

lemma length_randomized [simp]: "length (randomized_pools env ps) = length ps"
  by (simp add: randomized_pools_def)

lemma nth_randomized:
  "i < length ps \<Longrightarrow> randomized_pools env ps ! i = randomize (rand_res env i) (ps ! i)"
  by (simp add: randomized_pools_def)

lemma error_count_randomized [simp]:
  "map (\<lambda>p. error_count (state p)) (randomized_pools env ps) = map (\<lambda>p. error_count (state p)) ps"
  by (rule nth_equalityI) (simp_all add: nth_randomized randomize_def)

lemma priority_randomized [simp]:
  "map (\<lambda>p. priority (state p)) (randomized_pools env ps) = map (\<lambda>p. priority (state p)) ps"
  by (rule nth_equalityI) (simp_all add: nth_randomized randomize_def)

lemma state_set_error_count [simp]:
  "priority (state (set_error_count v p)) = priority (state p)"
  "random (state (set_error_count v p)) = random (state p)"
  "error_count (state (set_error_count v p)) = v"
  by (simp_all add: set_error_count_def)

lemma state_shift_error_count [simp]:
  "priority (state (shift_error_count n p)) = priority (state p)"
  "random (state (shift_error_count n p)) = random (state p)"
  "error_count (state (shift_error_count n p)) = drop_bit n (error_count (state p))"
  by (simp_all add: shift_error_count_def)

text \<open>The branches of \<open>update\<close>, one lemma each.\<close>

lemma update_first:
  "last_decrease_time this = 0 \<Longrightarrow>
   update env this =
     Inr (map state (randomized_pools env (pools this)),
          this\<lparr>pools := randomized_pools env (pools this), last_decrease_time := now env\<rparr>)"
  by (simp add: update_def randomized_pools_def)

lemma update_backwards:
  "last_decrease_time this \<noteq> 0 \<Longrightarrow> now env < last_decrease_time this \<Longrightarrow>
   update env this =
     Inr (map state (randomized_pools env (pools this)),
          this\<lparr>pools := randomized_pools env (pools this)\<rparr>)"
  by (simp add: update_def randomized_pools_def Let_def)

lemma update_fault:
  "last_decrease_time this \<noteq> 0 \<Longrightarrow> last_decrease_time this \<le> now env \<Longrightarrow>
   decrease_error_period this = 0 \<Longrightarrow> update env this = Inl DivisionByZero"
  by (simp add: update_def Let_def)

lemma update_no_shift:
  "last_decrease_time this \<noteq> 0 \<Longrightarrow> last_decrease_time this \<le> now env \<Longrightarrow>
   decrease_error_period this \<noteq> 0 \<Longrightarrow>
   shift_amount_of (now env - last_decrease_time this) (decrease_error_period this) = 0 \<Longrightarrow>
   update env this =
     Inr (map state (randomized_pools env (pools this)),
          this\<lparr>pools := randomized_pools env (pools this)\<rparr>)"
  by (simp add: update_def randomized_pools_def Let_def sizeof_UInt64_def)

lemma update_shift:
  "last_decrease_time this \<noteq> 0 \<Longrightarrow> last_decrease_time this \<le> now env \<Longrightarrow>
   decrease_error_period this \<noteq> 0 \<Longrightarrow>
   shift_amount_of (now env - last_decrease_time this) (decrease_error_period this) = n \<Longrightarrow>
   0 < n \<Longrightarrow> n < sizeof_UInt64 \<Longrightarrow>
   update env this =
     Inr (map state (map (shift_error_count n) (randomized_pools env (pools this))),
          this\<lparr>pools := map (shift_error_count n) (randomized_pools env (pools this)),
               last_decrease_time := now env\<rparr>)"
  by (simp add: update_def randomized_pools_def Let_def)

lemma update_zero:
  "last_decrease_time this \<noteq> 0 \<Longrightarrow> last_decrease_time this \<le> now env \<Longrightarrow>
   decrease_error_period this \<noteq> 0 \<Longrightarrow>
   sizeof_UInt64 \<le> shift_amount_of (now env - last_decrease_time this) (decrease_error_period this) \<Longrightarrow>
   update env this =
     Inr (map state (map (set_error_count 0) (randomized_pools env (pools this))),
          this\<lparr>pools := map (set_error_count 0) (randomized_pools env (pools this)),
               last_decrease_time := now env\<rparr>)"
  by (auto simp add: update_def randomized_pools_def Let_def sizeof_UInt64_def)

lemma update_cases:
  obtains (first) "last_decrease_time this = 0"
  | (backwards) "last_decrease_time this \<noteq> 0" "now env < last_decrease_time this"
  | (fault) "last_decrease_time this \<noteq> 0" "last_decrease_time this \<le> now env"
      "decrease_error_period this = 0"
  | (no_shift) "last_decrease_time this \<noteq> 0" "last_decrease_time this \<le> now env"
      "decrease_error_period this \<noteq> 0"
      "shift_amount_of (now env - last_decrease_time this) (decrease_error_period this) = 0"
  | (shift) "last_decrease_time this \<noteq> 0" "last_decrease_time this \<le> now env"
      "decrease_error_period this \<noteq> 0"
      "0 < shift_amount_of (now env - last_decrease_time this) (decrease_error_period this)"
      "shift_amount_of (now env - last_decrease_time this) (decrease_error_period this) < sizeof_UInt64"
  | (zero) "last_decrease_time this \<noteq> 0" "last_decrease_time this \<le> now env"
      "decrease_error_period this \<noteq> 0"
      "sizeof_UInt64 \<le> shift_amount_of (now env - last_decrease_time this) (decrease_error_period this)"
  by (metis not_le_imp_less not_gr_zero)

lemma update_shape:
  assumes "update env this = Inr (states, this')"
  shows "states = map state (pools this')"
    and "length (pools this') = length (pools this)"
    and "decrease_error_period this' = decrease_error_period this"
    and "map (\<lambda>p. priority (state p)) (pools this') = map (\<lambda>p. priority (state p)) (pools this)"
proof -
  have "states = map state (pools this') \<and> length (pools this') = length (pools this) \<and>
        decrease_error_period this' = decrease_error_period this \<and>
        map (\<lambda>p. priority (state p)) (pools this') = map (\<lambda>p. priority (state p)) (pools this)"
  proof (cases rule: update_cases [where this = this and env = env])
    case first
    from assms update_first [OF first, of env] show ?thesis by auto
  next
    case backwards
    from assms update_backwards [OF backwards] show ?thesis by auto
  next
    case fault
    from assms update_fault [OF fault] show ?thesis by simp
  next
    case no_shift
    from assms update_no_shift [OF no_shift] show ?thesis by auto
  next
    case shift
    from assms update_shift [OF shift(1-3) refl shift(4,5)] show ?thesis
      by (auto simp: comp_def)
  next
    case zero
    from assms update_zero [OF zero] show ?thesis
      by (auto simp: comp_def)
  qed
  then show "states = map state (pools this')"
    and "length (pools this') = length (pools this)"
    and "decrease_error_period this' = decrease_error_period this"
    and "map (\<lambda>p. priority (state p)) (pools this') = map (\<lambda>p. priority (state p)) (pools this)"
    by simp_all
qed

lemma update_total:
  "decrease_error_period this \<noteq> 0 \<Longrightarrow> \<exists>states this'. update env this = Inr (states, this')"
  by (cases rule: update_cases [where this = this and env = env])
     (simp_all add: update_first update_backwards update_no_shift update_shift update_zero)

lemma shift_amount_small:
  "0 \<le> delta \<Longrightarrow> delta < period \<Longrightarrow> shift_amount_of delta period = 0"
  by (simp add: shift_amount_of_def signed_divide_int_def)



subsection \<open>The decay step of update\<close>

text \<open>
  Claim C1.  The guard of the decay step compares \<open>shift_amount\<close> with
  \<^verbatim>\<open>sizeof(UInt64)\<close>, which is 8 (bytes), not with the 64 bits of the counter.  With
  \<open>decrease_error_period = 10\<close> and 80 seconds since the last decay the shift is 8: the code
  sets an error counter of 256 to 0, whereas \<open>256 >> 8\<close> is 1.
\<close>

theorem update_zeroes_after_eight_periods:
  "update \<lparr>now = 180, rand_res = (\<lambda>i. 0)\<rparr>
     \<lparr>pools = [\<lparr>state = \<lparr>priority = 0, error_count = 256, random = 0\<rparr>\<rparr>],
      last_decrease_time = 100, decrease_error_period = 10\<rparr>
   = Inr ([\<lparr>priority = 0, error_count = 0, random = 0\<rparr>],
          \<lparr>pools = [\<lparr>state = \<lparr>priority = 0, error_count = 0, random = 0\<rparr>\<rparr>],
           last_decrease_time = 180, decrease_error_period = 10\<rparr>) \<and>
   shift_amount_of (180 - 100) 10 = 8 \<and>
   drop_bit (shift_amount_of (180 - 100) 10) (256 :: UInt64) = 1"
  by (simp add: update_def shift_amount_of_def signed_divide_int_def sizeof_UInt64_def
      randomize_def set_error_count_def)

text \<open>
  Claim C7.  From any state of the pools, so at every step of every sequence of snapshots:
  if \<open>update\<close> changes \<open>last_decrease_time\<close>, the new value is the current time, and either
  \<open>last_decrease_time\<close> was still 0 (no snapshot recorded yet) or the clock has not gone
  backwards and the computed \<open>shift_amount\<close> is nonzero.  When the clock reads less than
  \<open>last_decrease_time\<close>, the snapshot returns, no error counter changes, and a recorded
  (nonzero) \<open>last_decrease_time\<close> stays as it is.
\<close>

theorem last_decrease_time_changes:
  "(\<forall>states this'. update env this = Inr (states, this') \<longrightarrow>
      last_decrease_time this' \<noteq> last_decrease_time this \<longrightarrow>
        last_decrease_time this' = now env \<and>
        (last_decrease_time this = 0 \<or>
         (last_decrease_time this \<le> now env \<and>
          shift_amount_of (now env - last_decrease_time this) (decrease_error_period this) \<noteq> 0)))
   \<and> (now env < last_decrease_time this \<longrightarrow>
        (\<exists>states this'. update env this = Inr (states, this') \<and>
           error_counts this' = error_counts this \<and> map error_count states = error_counts this \<and>
           (last_decrease_time this \<noteq> 0 \<longrightarrow>
              last_decrease_time this' = last_decrease_time this)))"
proof (intro conjI allI impI)
  fix states this'
  assume u: "update env this = Inr (states, this')"
    and ne: "last_decrease_time this' \<noteq> last_decrease_time this"
  show "last_decrease_time this' = now env"
    using u ne
    by (cases rule: update_cases [where this = this and env = env])
       (auto simp: update_first update_backwards update_fault update_no_shift update_shift
          update_zero)
  show "last_decrease_time this = 0 \<or>
         (last_decrease_time this \<le> now env \<and>
          shift_amount_of (now env - last_decrease_time this) (decrease_error_period this) \<noteq> 0)"
    using u ne
    by (cases rule: update_cases [where this = this and env = env])
       (auto simp: update_first update_backwards update_fault update_no_shift update_shift
          update_zero sizeof_UInt64_def)
next
  assume b: "now env < last_decrease_time this"
  show "\<exists>states this'. update env this = Inr (states, this') \<and>
           error_counts this' = error_counts this \<and> map error_count states = error_counts this \<and>
           (last_decrease_time this \<noteq> 0 \<longrightarrow>
              last_decrease_time this' = last_decrease_time this)"
  proof (cases "last_decrease_time this = 0")
    case True
    then show ?thesis by (simp add: update_first error_counts_def comp_def)
  next
    case False
    then show ?thesis using b by (simp add: update_backwards error_counts_def comp_def)
  qed
qed

theorem last_decrease_time_changes_witness:
  "update \<lparr>now = 125, rand_res = (\<lambda>i. 0)\<rparr>
     \<lparr>pools = [\<lparr>state = \<lparr>priority = 0, error_count = 8, random = 0\<rparr>\<rparr>],
      last_decrease_time = 100, decrease_error_period = 10\<rparr>
   = Inr ([\<lparr>priority = 0, error_count = 2, random = 0\<rparr>],
          \<lparr>pools = [\<lparr>state = \<lparr>priority = 0, error_count = 2, random = 0\<rparr>\<rparr>],
           last_decrease_time = 125, decrease_error_period = 10\<rparr>) \<and>
   shift_amount_of (125 - 100) 10 = 2 \<and>
   (\<exists>states this'.
      update \<lparr>now = 90, rand_res = (\<lambda>i. 0)\<rparr>
        \<lparr>pools = [\<lparr>state = \<lparr>priority = 0, error_count = 8, random = 0\<rparr>\<rparr>],
         last_decrease_time = 100, decrease_error_period = 10\<rparr> = Inr (states, this') \<and>
      error_counts this' = [8] \<and> map error_count states = [8] \<and>
      last_decrease_time this' = 100)"
proof -
  let ?ps = "\<lparr>pools = [\<lparr>state = \<lparr>priority = 0, error_count = 8, random = 0\<rparr>\<rparr>],
      last_decrease_time = 100, decrease_error_period = 10\<rparr>"
  have u: "update \<lparr>now = 125, rand_res = (\<lambda>i. 0)\<rparr> ?ps
     = Inr ([\<lparr>priority = 0, error_count = 2, random = 0\<rparr>],
          \<lparr>pools = [\<lparr>state = \<lparr>priority = 0, error_count = 2, random = 0\<rparr>\<rparr>],
           last_decrease_time = 125, decrease_error_period = 10\<rparr>)"
    by (simp add: update_def shift_amount_of_def signed_divide_int_def sizeof_UInt64_def
        randomize_def set_error_count_def shift_error_count_def drop_bit_eq_div)
  from last_decrease_time_changes [of "\<lparr>now = 125, rand_res = (\<lambda>i. 0)\<rparr>" ?ps] u
  have s: "shift_amount_of (125 - 100) 10 \<noteq> 0" by simp
  have "shift_amount_of (125 - 100) 10 = 2"
    by (simp add: shift_amount_of_def signed_divide_int_def)
  moreover from last_decrease_time_changes [of "\<lparr>now = 90, rand_res = (\<lambda>i. 0)\<rparr>" ?ps]
  have "\<exists>states this'.
      update \<lparr>now = 90, rand_res = (\<lambda>i. 0)\<rparr> ?ps = Inr (states, this') \<and>
      error_counts this' = [8] \<and> map error_count states = [8] \<and>
      last_decrease_time this' = 100"
    by (simp add: error_counts_def)
  ultimately show ?thesis using u by simp
qed

text \<open>
  Claim C9.  After a snapshot, a second snapshot whose clock reading is less than
  \<open>decrease_error_period\<close> seconds after \<open>last_decrease_time\<close> (the time of the previous
  decay), with no increment in between, returns and leaves every error counter as the
  first snapshot left it, in the pools and in the returned copy.
\<close>

theorem decay_idempotent_within_period:
  assumes "update env1 this = Inr (states1, this1)"
    and "now env2 - last_decrease_time this1 < decrease_error_period this1"
  shows "\<exists>states2 this2. update env2 this1 = Inr (states2, this2) \<and>
           error_counts this2 = error_counts this1 \<and>
           map error_count states2 = map error_count states1"
proof -
  have s1: "map error_count states1 = error_counts this1"
    using update_shape(1) [OF assms(1)] by (simp add: error_counts_def comp_def)
  show ?thesis
  proof (cases rule: update_cases [where this = this1 and env = env2])
    case first
    then show ?thesis by (simp add: update_first s1) (simp add: error_counts_def comp_def)
  next
    case backwards
    then show ?thesis by (simp add: update_backwards s1) (simp add: error_counts_def comp_def)
  next
    case fault
    with assms(2) show ?thesis by simp
  next
    case no_shift
    then show ?thesis by (simp add: update_no_shift s1) (simp add: error_counts_def comp_def)
  next
    case shift
    with assms(2) shift_amount_small [of "now env2 - last_decrease_time this1" "decrease_error_period this1"]
    show ?thesis by simp
  next
    case zero
    with assms(2) shift_amount_small [of "now env2 - last_decrease_time this1" "decrease_error_period this1"]
    show ?thesis by (simp add: sizeof_UInt64_def)
  qed
qed

theorem decay_idempotent_within_period_witness:
  "update \<lparr>now = 125, rand_res = (\<lambda>i. 3)\<rparr>
     \<lparr>pools = [\<lparr>state = \<lparr>priority = 0, error_count = 8, random = 0\<rparr>\<rparr>],
      last_decrease_time = 100, decrease_error_period = 10\<rparr>
   = Inr ([\<lparr>priority = 0, error_count = 2, random = 3\<rparr>],
          \<lparr>pools = [\<lparr>state = \<lparr>priority = 0, error_count = 2, random = 3\<rparr>\<rparr>],
           last_decrease_time = 125, decrease_error_period = 10\<rparr>) \<and>
   (\<exists>states2 this2.
      update \<lparr>now = 134, rand_res = (\<lambda>i. 5)\<rparr>
        \<lparr>pools = [\<lparr>state = \<lparr>priority = 0, error_count = 2, random = 3\<rparr>\<rparr>],
         last_decrease_time = 125, decrease_error_period = 10\<rparr> = Inr (states2, this2) \<and>
      error_counts this2 = [2] \<and> map error_count states2 = [2])"
proof -
  let ?ps = "\<lparr>pools = [\<lparr>state = \<lparr>priority = 0, error_count = 8, random = 0\<rparr>\<rparr>],
      last_decrease_time = 100, decrease_error_period = 10\<rparr>"
  have u: "update \<lparr>now = 125, rand_res = (\<lambda>i. 3)\<rparr> ?ps
     = Inr ([\<lparr>priority = 0, error_count = 2, random = 3\<rparr>],
          \<lparr>pools = [\<lparr>state = \<lparr>priority = 0, error_count = 2, random = 3\<rparr>\<rparr>],
           last_decrease_time = 125, decrease_error_period = 10\<rparr>)"
    by (simp add: update_def shift_amount_of_def signed_divide_int_def sizeof_UInt64_def
        randomize_def set_error_count_def shift_error_count_def drop_bit_eq_div)
  from decay_idempotent_within_period [OF u, of "\<lparr>now = 134, rand_res = (\<lambda>i. 5)\<rparr>"] u
  show ?thesis by (simp add: error_counts_def)
qed

subsection \<open>What the two loops of getResource do\<close>

lemma add_error_shape [simp]:
  "length (pools (add_error i ps)) = length (pools ps)"
  "last_decrease_time (add_error i ps) = last_decrease_time ps"
  "decrease_error_period (add_error i ps) = decrease_error_period ps"
  by (simp_all add: add_error_def)

lemma probe_pools_spec:
  assumes "probe_pools P settings t rs c = (res, c')"
  shows "\<exists>n msgs. n \<le> length rs \<and>
     tryGet_calls (sys c') = tryGet_calls (sys c) @ map (\<lambda>r. (t, pool r)) (take n rs) \<and>
     log_warnings (sys c') = log_warnings (sys c) @ map (Pair (Suc t)) msgs \<and>
     fail_messages c' = fail_messages c @ concat (map (\<lambda>m. m @ endl) msgs) \<and>
     DistributedConnectionFailTry (sys c') = DistributedConnectionFailTry (sys c) + length msgs \<and>
     DistributedConnectionFailAtAll (sys c') = DistributedConnectionFailAtAll (sys c) \<and>
     length (pools (nested_pools (sys c'))) = length (pools (nested_pools (sys c))) \<and>
     last_decrease_time (nested_pools (sys c')) = last_decrease_time (nested_pools (sys c)) \<and>
     decrease_error_period (nested_pools (sys c')) = decrease_error_period (nested_pools (sys c)) \<and>
     (case res of None \<Rightarrow> n = length rs \<and> length msgs = n
               | Some r \<Rightarrow> 0 < n \<and> r = rs ! (n - 1) \<and> length msgs = n - 1)"
  using assms
proof (induction rs arbitrary: c)
  case Nil
  then show ?case by auto
next
  case (Cons r rs)
  obtain tr h where call: "tryGet P (pool r) settings (entry c) (hook_state (sys c)) = (tr, h)"
    by fastforce
  show ?case
  proof (cases "ok tr")
    case True
    with Cons.prems call have "res = Some r"
      and "c' = c\<lparr>entry := out_entry tr,
                   sys := (sys c)\<lparr>hook_state := h,
                            tryGet_calls := tryGet_calls (sys c) @ [(t, pool r)]\<rparr>\<rparr>"
      by (simp_all add: Let_def)
    then show ?thesis
      by (intro exI [of _ 1] exI [of _ "[]"]) simp
  next
    case False
    define c1 where "c1 = c\<lparr>entry := out_entry tr,
                   fail_messages := fail_messages c @ fail_message tr @ endl,
                   sys := (sys c)\<lparr>hook_state := h,
                     tryGet_calls := tryGet_calls (sys c) @ [(t, pool r)],
                     DistributedConnectionFailTry :=
                       increment (DistributedConnectionFailTry (sys c)),
                     log_warnings := log_warnings (sys c) @ [(t + 1, fail_message tr)],
                     nested_pools := add_error (pool r) (nested_pools (sys c))\<rparr>\<rparr>"
    from Cons.prems call False have "probe_pools P settings t rs c1 = (res, c')"
      by (simp add: Let_def c1_def)
    from Cons.IH [OF this] obtain n msgs where n: "n \<le> length rs"
      and 1: "tryGet_calls (sys c') = tryGet_calls (sys c1) @ map (\<lambda>r. (t, pool r)) (take n rs)"
      and 2: "log_warnings (sys c') = log_warnings (sys c1) @ map (Pair (Suc t)) msgs"
      and 3: "fail_messages c' = fail_messages c1 @ concat (map (\<lambda>m. m @ endl) msgs)"
      and 4: "DistributedConnectionFailTry (sys c') = DistributedConnectionFailTry (sys c1) + length msgs"
      and 5: "DistributedConnectionFailAtAll (sys c') = DistributedConnectionFailAtAll (sys c1)"
      and 6: "length (pools (nested_pools (sys c'))) = length (pools (nested_pools (sys c1)))"
      and 7: "last_decrease_time (nested_pools (sys c')) = last_decrease_time (nested_pools (sys c1))"
      and 8: "decrease_error_period (nested_pools (sys c')) = decrease_error_period (nested_pools (sys c1))"
      and 9: "(case res of None \<Rightarrow> n = length rs \<and> length msgs = n
               | Some r \<Rightarrow> 0 < n \<and> r = rs ! (n - 1) \<and> length msgs = n - 1)"
      by blast
    show ?thesis
    proof (intro exI [of _ "Suc n"] exI [of _ "fail_message tr # msgs"] conjI)
      show "Suc n \<le> length (r # rs)" using n by simp
      show "tryGet_calls (sys c') = tryGet_calls (sys c) @ map (\<lambda>r. (t, pool r)) (take (Suc n) (r # rs))"
        using 1 by (simp add: c1_def)
      show "log_warnings (sys c') = log_warnings (sys c) @ map (Pair (Suc t)) (fail_message tr # msgs)"
        using 2 by (simp add: c1_def)
      show "fail_messages c' = fail_messages c @ concat (map (\<lambda>m. m @ endl) (fail_message tr # msgs))"
        using 3 by (simp add: c1_def)
      show "DistributedConnectionFailTry (sys c') = DistributedConnectionFailTry (sys c) + length (fail_message tr # msgs)"
        using 4 by (simp add: c1_def increment_def)
      show "DistributedConnectionFailAtAll (sys c') = DistributedConnectionFailAtAll (sys c)"
        using 5 by (simp add: c1_def)
      show "length (pools (nested_pools (sys c'))) = length (pools (nested_pools (sys c)))"
        using 6 by (simp add: c1_def)
      show "last_decrease_time (nested_pools (sys c')) = last_decrease_time (nested_pools (sys c))"
        using 7 by (simp add: c1_def)
      show "decrease_error_period (nested_pools (sys c')) = decrease_error_period (nested_pools (sys c))"
        using 8 by (simp add: c1_def)
      show "case res of None \<Rightarrow> Suc n = length (r # rs) \<and> length (fail_message tr # msgs) = Suc n
               | Some r' \<Rightarrow> 0 < Suc n \<and> r' = (r # rs) ! (Suc n - 1) \<and> length (fail_message tr # msgs) = Suc n - 1"
        using 9 by (auto split: option.splits)
    qed
  qed
qed


lemma try_loop_done:
  "\<not> t < max_tries P \<Longrightarrow> try_loop P settings rs t c = (None, c)"
  by (simp add: try_loop.simps)

lemma try_loop_found:
  "t < max_tries P \<Longrightarrow> probe_pools P settings t rs c = (Some r, c1) \<Longrightarrow>
   try_loop P settings rs t c = (Some r, c1)"
  by (subst try_loop.simps) simp

lemma try_loop_next:
  "t < max_tries P \<Longrightarrow> probe_pools P settings t rs c = (None, c1) \<Longrightarrow>
   try_loop P settings rs t c = try_loop P settings rs (Suc t) c1"
  by (subst try_loop.simps) simp

lemma try_loop_spec:
  assumes "try_loop P settings rs t c = (res, c')"
  shows "\<exists>m n msgs. n \<le> length rs \<and>
     tryGet_calls (sys c') = tryGet_calls (sys c)
        @ concat (map (\<lambda>k. map (\<lambda>r. (k, pool r)) rs) [t..<t + m])
        @ map (\<lambda>r. (t + m, pool r)) (take n rs) \<and>
     log_warnings (sys c') = log_warnings (sys c) @ msgs \<and>
     fail_messages c' = fail_messages c @ concat (map (\<lambda>m. snd m @ endl) msgs) \<and>
     DistributedConnectionFailTry (sys c') = DistributedConnectionFailTry (sys c) + length msgs \<and>
     DistributedConnectionFailAtAll (sys c') = DistributedConnectionFailAtAll (sys c) \<and>
     length (pools (nested_pools (sys c'))) = length (pools (nested_pools (sys c))) \<and>
     last_decrease_time (nested_pools (sys c')) = last_decrease_time (nested_pools (sys c)) \<and>
     decrease_error_period (nested_pools (sys c')) = decrease_error_period (nested_pools (sys c)) \<and>
     (case res of None \<Rightarrow> n = 0 \<and> t + m = max t (max_tries P) \<and> length msgs = m * length rs
               | Some r \<Rightarrow> t + m < max_tries P \<and> 0 < n \<and> r = rs ! (n - 1) \<and>
                           length msgs = m * length rs + (n - 1))"
  using assms
proof (induction "max_tries P - t" arbitrary: t c)
  case 0
  then have "\<not> t < max_tries P" by simp
  with "0.prems" have "res = None" "c' = c" by (simp_all add: try_loop_done)
  with \<open>\<not> t < max_tries P\<close> show ?case
    by - (rule exI [of _ 0], rule exI [of _ 0], rule exI [of _ "[]"], simp)
next
  case (Suc k)
  then have lt: "t < max_tries P" by simp
  obtain pr c1 where pp: "probe_pools P settings t rs c = (pr, c1)" by fastforce
  from probe_pools_spec [OF pp] obtain n1 msgs1 where n1: "n1 \<le> length rs"
      and 1: "tryGet_calls (sys c1) = tryGet_calls (sys c) @ map (\<lambda>r. (t, pool r)) (take n1 rs)"
      and 2: "log_warnings (sys c1) = log_warnings (sys c) @ map (Pair (Suc t)) msgs1"
      and 3: "fail_messages c1 = fail_messages c @ concat (map (\<lambda>m. m @ endl) msgs1)"
      and 4: "DistributedConnectionFailTry (sys c1) = DistributedConnectionFailTry (sys c) + length msgs1"
      and 5: "DistributedConnectionFailAtAll (sys c1) = DistributedConnectionFailAtAll (sys c)"
      and 6: "length (pools (nested_pools (sys c1))) = length (pools (nested_pools (sys c)))"
      and 7: "last_decrease_time (nested_pools (sys c1)) = last_decrease_time (nested_pools (sys c))"
      and 8: "decrease_error_period (nested_pools (sys c1)) = decrease_error_period (nested_pools (sys c))"
      and 9: "(case pr of None \<Rightarrow> n1 = length rs \<and> length msgs1 = n1
               | Some r \<Rightarrow> 0 < n1 \<and> r = rs ! (n1 - 1) \<and> length msgs1 = n1 - 1)"
    by blast
  show ?case
  proof (cases pr)
    case (Some r)
    with pp lt Suc.prems have "res = Some r" "c' = c1" by (simp_all add: try_loop_found)
    with Some n1 1 2 3 4 5 6 7 8 9 lt show ?thesis
      by - (rule exI [of _ 0], rule exI [of _ n1], rule exI [of _ "map (Pair (Suc t)) msgs1"],
            simp add: comp_def)
  next
    case None
    with pp lt Suc.prems have rec: "try_loop P settings rs (Suc t) c1 = (res, c')"
      by (simp add: try_loop_next)
    from Suc.hyps lt have "k = max_tries P - Suc t" by simp
    from Suc.hyps(1) [OF this rec] obtain m n msgs where n: "n \<le> length rs"
      and r1: "tryGet_calls (sys c') = tryGet_calls (sys c1)
        @ concat (map (\<lambda>k. map (\<lambda>r. (k, pool r)) rs) [Suc t..<Suc t + m])
        @ map (\<lambda>r. (Suc t + m, pool r)) (take n rs)"
      and r2: "log_warnings (sys c') = log_warnings (sys c1) @ msgs"
      and r3: "fail_messages c' = fail_messages c1 @ concat (map (\<lambda>m. snd m @ endl) msgs)"
      and r4: "DistributedConnectionFailTry (sys c') = DistributedConnectionFailTry (sys c1) + length msgs"
      and r5: "DistributedConnectionFailAtAll (sys c') = DistributedConnectionFailAtAll (sys c1)"
      and r6: "length (pools (nested_pools (sys c'))) = length (pools (nested_pools (sys c1)))"
      and r7: "last_decrease_time (nested_pools (sys c')) = last_decrease_time (nested_pools (sys c1))"
      and r8: "decrease_error_period (nested_pools (sys c')) = decrease_error_period (nested_pools (sys c1))"
      and r9: "(case res of None \<Rightarrow> n = 0 \<and> Suc t + m = max (Suc t) (max_tries P) \<and> length msgs = m * length rs
               | Some r \<Rightarrow> Suc t + m < max_tries P \<and> 0 < n \<and> r = rs ! (n - 1) \<and>
                           length msgs = m * length rs + (n - 1))"
      by blast
    from None 9 have full: "n1 = length rs" "length msgs1 = length rs" by simp_all
    have upt: "[t..<t + Suc m] = t # [Suc t..<Suc t + m]"
      by (simp add: upt_rec)
    show ?thesis
    proof (rule exI [of _ "Suc m"], rule exI [of _ n],
        rule exI [of _ "map (Pair (Suc t)) msgs1 @ msgs"], intro conjI)
      show "n \<le> length rs" by (fact n)
      show "tryGet_calls (sys c') = tryGet_calls (sys c)
        @ concat (map (\<lambda>k. map (\<lambda>r. (k, pool r)) rs) [t..<t + Suc m])
        @ map (\<lambda>r. (t + Suc m, pool r)) (take n rs)"
        unfolding upt using r1 1 full by simp
      show "log_warnings (sys c') = log_warnings (sys c) @ map (Pair (Suc t)) msgs1 @ msgs"
        using r2 2 by simp
      show "fail_messages c' = fail_messages c @ concat (map (\<lambda>m. snd m @ endl) (map (Pair (Suc t)) msgs1 @ msgs))"
        using r3 3 by (simp add: comp_def)
      show "DistributedConnectionFailTry (sys c') = DistributedConnectionFailTry (sys c) + length (map (Pair (Suc t)) msgs1 @ msgs)"
        using r4 4 by simp
      show "DistributedConnectionFailAtAll (sys c') = DistributedConnectionFailAtAll (sys c)"
        using r5 5 by simp
      show "length (pools (nested_pools (sys c'))) = length (pools (nested_pools (sys c)))"
        using r6 6 by simp
      show "last_decrease_time (nested_pools (sys c')) = last_decrease_time (nested_pools (sys c))"
        using r7 7 by simp
      show "decrease_error_period (nested_pools (sys c')) = decrease_error_period (nested_pools (sys c))"
        using r8 8 by simp
      show "case res of None \<Rightarrow> n = 0 \<and> t + Suc m = max t (max_tries P) \<and>
                 length (map (Pair (Suc t)) msgs1 @ msgs) = Suc m * length rs
               | Some r \<Rightarrow> t + Suc m < max_tries P \<and> 0 < n \<and> r = rs ! (n - 1) \<and>
                           length (map (Pair (Suc t)) msgs1 @ msgs) = Suc m * length rs + (n - 1)"
        using r9 full lt by (auto split: option.splits)
    qed
  qed
qed

subsection \<open>getResource as a whole\<close>

lemma compare_sort_key: "compare (state_snapshot b) (state_snapshot a) \<longleftrightarrow> sort_key_of b < sort_key_of a"
  by (simp add: compare_def sort_key_of_def)

lemma insertion_sort_contract: "sort_contract insertion_sort"
proof -
  have "sorted_wrt (\<lambda>a b. \<not> compare (state_snapshot b) (state_snapshot a)) (insertion_sort xs)" for xs
  proof -
    have "sorted (map sort_key_of (sort_key sort_key_of xs))" by (rule sorted_sort_key)
    then have "sorted_wrt (\<lambda>a b. sort_key_of a \<le> sort_key_of b) (sort_key sort_key_of xs)"
      by (simp add: sorted_map)
    then show ?thesis
      by (simp add: insertion_sort_def compare_sort_key not_less)
  qed
  then show ?thesis by (simp add: sort_contract_def insertion_sort_def)
qed

lemma sort_contract_mset: "sort_contract f \<Longrightarrow> mset (f xs) = mset xs"
  by (simp add: sort_contract_def)

lemma sort_contract_set: "sort_contract f \<Longrightarrow> set (f xs) = set xs"
  by (metis sort_contract_mset set_mset_mset)

lemma sort_contract_length: "sort_contract f \<Longrightarrow> length (f xs) = length xs"
  by (metis sort_contract_mset size_mset)

lemma sort_contract_sorted:
  "sort_contract f \<Longrightarrow> sorted_wrt (\<lambda>a b. \<not> compare (state_snapshot b) (state_snapshot a)) (f xs)"
  by (simp add: sort_contract_def)

lemma sort_contract_Nil: "sort_contract f \<Longrightarrow> f [] = []"
  using sort_contract_length [of f "[]"] by simp

lemma sort_contract_single: "sort_contract f \<Longrightarrow> f [x] = [x]"
  using sort_contract_mset [of f "[x]"] by (simp add: mset_single_iff_right)

lemma length_make_pool_ptrs [simp]: "length (make_pool_ptrs tr states n) = n"
  by (simp add: make_pool_ptrs_def)

lemma nth_make_pool_ptrs:
  "i < n \<Longrightarrow> make_pool_ptrs tr states n ! i =
     \<lparr>pool = (case tr of Some t \<Rightarrow> getHandle t i | None \<Rightarrow> i),
      state_snapshot = states ! (case tr of Some t \<Rightarrow> getHandle t i | None \<Rightarrow> i),
      index = i\<rparr>"
  by (cases tr) (simp_all add: make_pool_ptrs_def Let_def)

lemma in_make_pool_ptrs:
  assumes "r \<in> set (make_pool_ptrs tr states n)"
  shows "index r < n"
    and "pool r = (case tr of Some t \<Rightarrow> getHandle t (index r) | None \<Rightarrow> index r)"
    and "state_snapshot r = states ! pool r"
proof -
  from assms obtain i where "i < n" "r = make_pool_ptrs tr states n ! i"
    by (metis in_set_conv_nth length_make_pool_ptrs)
  then have r: "r = \<lparr>pool = (case tr of Some t \<Rightarrow> getHandle t i | None \<Rightarrow> i),
      state_snapshot = states ! (case tr of Some t \<Rightarrow> getHandle t i | None \<Rightarrow> i),
      index = i\<rparr>" by (simp add: nth_make_pool_ptrs)
  from r \<open>i < n\<close> show "index r < n" by simp
  from r show "pool r = (case tr of Some t \<Rightarrow> getHandle t (index r) | None \<Rightarrow> index r)"
    by (cases tr) simp_all
  from r show "state_snapshot r = states ! pool r" by simp
qed

lemma getResource_unfold:
  "update env (nested_pools (sys c)) = Inr (states, updated) \<Longrightarrow>
   try_loop P settings (std_sort (make_pool_ptrs tr states (pools_size_of tr updated))) 0
     (with_pools updated c) = (found, c1) \<Longrightarrow>
   getResource std_sort P settings env tr c =
     (case found of
        Some r \<Rightarrow> Inr (Some (pool r), map_option (\<lambda>t. markAsAllocated t (index r)) tr, c1)
      | None \<Rightarrow> Inr (None, tr, count_fail_at_all c1))"
  by (simp add: getResource_def pools_size_of_def with_pools_def count_fail_at_all_def Let_def
      split: option.splits)

lemma getResource_fault:
  "update env (nested_pools (sys c)) = Inl f \<Longrightarrow> getResource std_sort P settings env tr c = Inl f"
  by (simp add: getResource_def)

lemma getResource_Inr:
  assumes "getResource std_sort P settings env tr c = Inr (res, tr', c')"
  obtains states updated found c1 where
    "update env (nested_pools (sys c)) = Inr (states, updated)"
    "try_loop P settings (std_sort (make_pool_ptrs tr states (pools_size_of tr updated))) 0
       (with_pools updated c) = (found, c1)"
    "case found of
       None \<Rightarrow> res = None \<and> tr' = tr \<and> c' = count_fail_at_all c1
     | Some r \<Rightarrow> res = Some (pool r) \<and>
                tr' = map_option (\<lambda>t. markAsAllocated t (index r)) tr \<and> c' = c1"
proof (cases "update env (nested_pools (sys c))")
  case (Inl f)
  with assms show ?thesis by (simp add: getResource_fault)
next
  case (Inr p)
  obtain states updated where p: "p = (states, updated)" by fastforce
  obtain found c1 where t: "try_loop P settings
      (std_sort (make_pool_ptrs tr states (pools_size_of tr updated))) 0
       (with_pools updated c) = (found, c1)" by fastforce
  from Inr p have u: "update env (nested_pools (sys c)) = Inr (states, updated)" by simp
  from assms getResource_unfold [where std_sort = std_sort, OF u t]
  have "case found of
       None \<Rightarrow> res = None \<and> tr' = tr \<and> c' = count_fail_at_all c1
     | Some r \<Rightarrow> res = Some (pool r) \<and>
                tr' = map_option (\<lambda>t. markAsAllocated t (index r)) tr \<and> c' = c1"
    by (cases found) simp_all
  with u t show ?thesis by (rule that)
qed

lemma with_pools_simps [simp]:
  "entry (with_pools ps c) = entry c"
  "fail_messages (with_pools ps c) = fail_messages c"
  "nested_pools (sys (with_pools ps c)) = ps"
  "hook_state (sys (with_pools ps c)) = hook_state (sys c)"
  "tryGet_calls (sys (with_pools ps c)) = tryGet_calls (sys c)"
  "DistributedConnectionFailTry (sys (with_pools ps c)) = DistributedConnectionFailTry (sys c)"
  "DistributedConnectionFailAtAll (sys (with_pools ps c)) = DistributedConnectionFailAtAll (sys c)"
  "log_warnings (sys (with_pools ps c)) = log_warnings (sys c)"
  by (simp_all add: with_pools_def)

lemma count_fail_at_all_simps [simp]:
  "entry (count_fail_at_all c) = entry c"
  "fail_messages (count_fail_at_all c) = fail_messages c"
  "nested_pools (sys (count_fail_at_all c)) = nested_pools (sys c)"
  "hook_state (sys (count_fail_at_all c)) = hook_state (sys c)"
  "tryGet_calls (sys (count_fail_at_all c)) = tryGet_calls (sys c)"
  "DistributedConnectionFailTry (sys (count_fail_at_all c)) = DistributedConnectionFailTry (sys c)"
  "DistributedConnectionFailAtAll (sys (count_fail_at_all c)) = DistributedConnectionFailAtAll (sys c) + 1"
  "log_warnings (sys (count_fail_at_all c)) = log_warnings (sys c)"
  by (simp_all add: count_fail_at_all_def increment_def)

lemma try_loop_effect:
  assumes "try_loop P settings rs t c = (res, c')"
  obtains m n msgs where "n \<le> length rs" "loop_effect c c' (rounds rs t m n) msgs"
    "case res of
       None \<Rightarrow> n = 0 \<and> t + m = max t (max_tries P) \<and> length msgs = m * length rs
     | Some r \<Rightarrow> t + m < max_tries P \<and> 0 < n \<and> r = rs ! (n - 1) \<and>
                length msgs = m * length rs + (n - 1)"
  using try_loop_spec [OF assms]
  apply (elim exE conjE)
  subgoal for m n msgs
    apply (rule that [of n m msgs])
       apply (simp_all add: loop_effect_def rounds_def)
    done
  done

text \<open>When every \<^verbatim>\<open>tryGet\<close> fails.\<close>

lemma probe_pools_all_fail:
  assumes "\<forall>i st e h. \<not> ok (fst (tryGet P i st e h))"
  shows "fst (probe_pools P settings t rs c) = None"
proof (induction rs arbitrary: c)
  case Nil
  show ?case by simp
next
  case (Cons r rs)
  obtain tr h where call: "tryGet P (pool r) settings (entry c) (hook_state (sys c)) = (tr, h)"
    by fastforce
  with assms have "\<not> ok tr" by (metis fst_conv)
  with call Cons.IH show ?case by (simp add: Let_def)
qed

lemma try_loop_all_fail:
  assumes "\<forall>i st e h. \<not> ok (fst (tryGet P i st e h))"
  shows "fst (try_loop P settings rs t c) = None"
proof (induction "max_tries P - t" arbitrary: t c)
  case 0
  then show ?case by (simp add: try_loop_done)
next
  case (Suc k)
  then have lt: "t < max_tries P" by simp
  obtain pr c1 where pp: "probe_pools P settings t rs c = (pr, c1)" by fastforce
  with probe_pools_all_fail [OF assms, of settings t rs c] have "pr = None" by simp
  with pp lt have "try_loop P settings rs t c = try_loop P settings rs (Suc t) c1"
    by (simp add: try_loop_next)
  moreover from Suc.hyps lt have "k = max_tries P - Suc t" by simp
  ultimately show ?case using Suc.hyps(1) by simp
qed

lemma single_pool_ptrs:
  assumes "tr = None \<or> tr = Some (new_ResourceTracker 1)"
  shows "make_pool_ptrs tr states 1 = [\<lparr>pool = 0, state_snapshot = states ! 0, index = 0\<rparr>]"
  using assms by (auto simp: make_pool_ptrs_def new_ResourceTracker_def getHandle_def)

text \<open>
  Claim C5.  One nested pool, a \<^verbatim>\<open>tryGet\<close> that always fails and \<open>max_tries = 3\<close>: one call of
  \<open>getResource\<close> (without tracker, or with the tracker \<open>getMany\<close> starts with) returns
  \<^verbatim>\<open>false\<close> after exactly three \<^verbatim>\<open>tryGet\<close> calls, one per \<^verbatim>\<open>try_no\<close> 0, 1, 2, all on pool 0;
  \<^verbatim>\<open>DistributedConnectionFailTry\<close> has advanced by 3 and
  \<^verbatim>\<open>DistributedConnectionFailAtAll\<close> by 1.
\<close>

theorem single_failing_replica_three_tries:
  assumes "sort_contract std_sort"
    and "length (pools (nested_pools (sys c))) = 1"
    and "max_tries P = 3"
    and "\<forall>i st e h. \<not> ok (fst (tryGet P i st e h))"
    and "decrease_error_period (nested_pools (sys c)) \<noteq> 0"
    and "tr = None \<or> tr = Some (new_ResourceTracker 1)"
  shows "\<exists>c'. getResource std_sort P settings env tr c = Inr (None, tr, c') \<and>
           tryGet_calls (sys c') = tryGet_calls (sys c) @ [(0, 0), (1, 0), (2, 0)] \<and>
           DistributedConnectionFailTry (sys c') = DistributedConnectionFailTry (sys c) + 3 \<and>
           DistributedConnectionFailAtAll (sys c') = DistributedConnectionFailAtAll (sys c) + 1"
proof -
  from update_total [OF assms(5)] obtain states updated
    where u: "update env (nested_pools (sys c)) = Inr (states, updated)" by blast
  from update_shape(2) [OF u] assms(2) have len: "length (pools updated) = 1" by simp
  with assms(6) have size: "pools_size_of tr updated = 1"
    by (auto simp: pools_size_of_def getUnallocatedSize_def new_ResourceTracker_def)
  define x where "x = \<lparr>pool = 0, state_snapshot = states ! 0, index = 0\<rparr>"
  have "make_pool_ptrs tr states (pools_size_of tr updated) = [x]"
    using single_pool_ptrs [OF assms(6), of states] size by (simp add: x_def)
  then have ptrs: "std_sort (make_pool_ptrs tr states (pools_size_of tr updated)) = [x]"
    by (simp add: sort_contract_single [OF assms(1)])
  obtain found c1 where t: "try_loop P settings [x] 0 (with_pools updated c) = (found, c1)"
    by fastforce
  with try_loop_all_fail [OF assms(4), of settings "[x]" 0 "with_pools updated c"]
  have none: "found = None" by simp
  from t obtain m n msgs
    where "n \<le> length [x]"
      and e: "loop_effect (with_pools updated c) c1 (rounds [x] 0 m n) msgs"
      and "case found of
             None \<Rightarrow> n = 0 \<and> 0 + m = max 0 (max_tries P) \<and> length msgs = m * length [x]
           | Some r \<Rightarrow> 0 + m < max_tries P \<and> 0 < n \<and> r = [x] ! (n - 1) \<and>
                      length msgs = m * length [x] + (n - 1)"
    by (rule try_loop_effect)
  with none assms(3) have "n = 0" "m = 3" "length msgs = 3" by simp_all
  moreover note e
  moreover have "[0..<3] = [0, 1, 2::nat]" by (simp add: upt_rec)
  ultimately have
    "tryGet_calls (sys c1) = tryGet_calls (sys c) @ [(0, 0), (1, 0), (2, 0)]"
    "DistributedConnectionFailTry (sys c1) = DistributedConnectionFailTry (sys c) + 3"
    "DistributedConnectionFailAtAll (sys c1) = DistributedConnectionFailAtAll (sys c)"
    by (simp_all add: x_def loop_effect_def rounds_def)
  moreover from getResource_unfold [where std_sort = std_sort, OF u] t ptrs none
  have "getResource std_sort P settings env tr c = Inr (None, tr, count_fail_at_all c1)"
    by simp
  ultimately show ?thesis by simp
qed

theorem single_failing_replica_three_tries_witness:
  "\<exists>c'. getResource insertion_sort failing_pool None at_noon None (fresh one_replica)
           = Inr (None, None, c') \<and>
        tryGet_calls (sys c') = [(0, 0), (1, 0), (2, 0)] \<and>
        hook_state (sys c') = 3 \<and>
        DistributedConnectionFailTry (sys c') = 3 \<and>
        DistributedConnectionFailAtAll (sys c') = 1"
proof -
  have h: "hook_state (sys c') = 3"
    if "getResource insertion_sort failing_pool None at_noon None (fresh one_replica)
           = Inr (None, None, c')" for c'
    using that
    by (auto simp add: getResource_def update_def failing_pool_def one_replica_def at_noon_def
        fresh_def make_pool_ptrs_def insertion_sort_def try_loop.simps Let_def
        randomize_def increment_def add_error_def set_error_count_def)
  from single_failing_replica_three_tries [OF insertion_sort_contract,
      of "fresh one_replica" failing_pool None None at_noon] h
  show ?thesis
    by (auto simp: failing_pool_def one_replica_def fresh_def)
qed

lemma rounds_Nil [simp]: "rounds [] t m n = []"
  by (simp add: rounds_def)


text \<open>A failing getResource: what it leaves behind.\<close>

lemma getResource_None:
  assumes "sort_contract std_sort"
    and "getResource std_sort P settings env tr c = Inr (None, tr', c')"
  obtains states updated c1 msgs where
    "update env (nested_pools (sys c)) = Inr (states, updated)"
    "tr' = tr" "c' = count_fail_at_all c1"
    "loop_effect (with_pools updated c) c1
       (rounds (std_sort (make_pool_ptrs tr states (pools_size_of tr updated))) 0 (max_tries P) 0)
       msgs"
    "length msgs = max_tries P * pools_size_of tr updated"
proof -
  from assms(2) obtain states updated found c1 where
    u: "update env (nested_pools (sys c)) = Inr (states, updated)"
    and t: "try_loop P settings (std_sort (make_pool_ptrs tr states (pools_size_of tr updated))) 0
       (with_pools updated c) = (found, c1)"
    and k: "case found of
       None \<Rightarrow> None = (None :: size_t option) \<and> tr' = tr \<and> c' = count_fail_at_all c1
     | Some r \<Rightarrow> None = Some (pool r) \<and>
                tr' = map_option (\<lambda>t. markAsAllocated t (index r)) tr \<and> c' = c1"
    by (rule getResource_Inr)
  from k have none: "found = None" by (cases found) simp_all
  from k none have n: "tr' = tr \<and> c' = count_fail_at_all c1" by simp
  let ?rs = "std_sort (make_pool_ptrs tr states (pools_size_of tr updated))"
  from t obtain m n msgs
    where "n \<le> length ?rs"
      and e: "loop_effect (with_pools updated c) c1 (rounds ?rs 0 m n) msgs"
      and "case found of
             None \<Rightarrow> n = 0 \<and> 0 + m = max 0 (max_tries P) \<and> length msgs = m * length ?rs
           | Some r \<Rightarrow> 0 + m < max_tries P \<and> 0 < n \<and> r = ?rs ! (n - 1) \<and>
                      length msgs = m * length ?rs + (n - 1)"
    by (rule try_loop_effect)
  with none have "n = 0" "m = max_tries P" "length msgs = max_tries P * length ?rs" by simp_all
  with e n u show ?thesis
    by (intro that [of states updated c1 msgs])
       (simp_all add: sort_contract_length [OF assms(1)])
qed

text \<open>A successful getResource.\<close>

lemma getResource_Some:
  assumes "sort_contract std_sort"
    and "getResource std_sort P settings env tr c = Inr (Some p, tr', c')"
  obtains states updated r m n msgs where
    "update env (nested_pools (sys c)) = Inr (states, updated)"
    "r \<in> set (make_pool_ptrs tr states (pools_size_of tr updated))"
    "p = pool r" "tr' = map_option (\<lambda>t. markAsAllocated t (index r)) tr"
    "loop_effect (with_pools updated c) c'
       (rounds (std_sort (make_pool_ptrs tr states (pools_size_of tr updated))) 0 m n) msgs"
    "m < max_tries P" "0 < n" "n \<le> pools_size_of tr updated"
    "r = std_sort (make_pool_ptrs tr states (pools_size_of tr updated)) ! (n - 1)"
proof -
  from assms(2) obtain states updated found c1 where
    u: "update env (nested_pools (sys c)) = Inr (states, updated)"
    and t: "try_loop P settings (std_sort (make_pool_ptrs tr states (pools_size_of tr updated))) 0
       (with_pools updated c) = (found, c1)"
    and k: "case found of
       None \<Rightarrow> Some p = None \<and> tr' = tr \<and> c' = count_fail_at_all c1
     | Some r \<Rightarrow> Some p = Some (pool r) \<and>
                tr' = map_option (\<lambda>t. markAsAllocated t (index r)) tr \<and> c' = c1"
    by (rule getResource_Inr)
  from k obtain r where some: "found = Some r" by (cases found) simp_all
  from k some have s: "p = pool r \<and> tr' = map_option (\<lambda>t. markAsAllocated t (index r)) tr \<and> c' = c1"
    by simp
  let ?rs = "std_sort (make_pool_ptrs tr states (pools_size_of tr updated))"
  from t obtain m n msgs
    where le: "n \<le> length ?rs"
      and e: "loop_effect (with_pools updated c) c1 (rounds ?rs 0 m n) msgs"
      and "case found of
             None \<Rightarrow> n = 0 \<and> 0 + m = max 0 (max_tries P) \<and> length msgs = m * length ?rs
           | Some r \<Rightarrow> 0 + m < max_tries P \<and> 0 < n \<and> r = ?rs ! (n - 1) \<and>
                      length msgs = m * length ?rs + (n - 1)"
    by (rule try_loop_effect)
  with some have f: "m < max_tries P" "0 < n" "r = ?rs ! (n - 1)" by simp_all
  from le have le': "n \<le> pools_size_of tr updated"
    by (simp add: sort_contract_length [OF assms(1)])
  with f have "r \<in> set ?rs"
    by (simp add: sort_contract_length [OF assms(1)])
  then have "r \<in> set (make_pool_ptrs tr states (pools_size_of tr updated))"
    by (simp add: sort_contract_set [OF assms(1)])
  with e s u f le' show ?thesis
    by (intro that [of states updated r m n msgs]) simp_all
qed

lemma getResource_total:
  assumes "decrease_error_period (nested_pools (sys c)) \<noteq> 0"
  shows "\<exists>res tr' c'. getResource std_sort P settings env tr c = Inr (res, tr', c')"
proof -
  from update_total [OF assms] obtain states updated
    where u: "update env (nested_pools (sys c)) = Inr (states, updated)" by blast
  obtain found c1 where t: "try_loop P settings
      (std_sort (make_pool_ptrs tr states (pools_size_of tr updated))) 0
      (with_pools updated c) = (found, c1)" by fastforce
  from getResource_unfold [where std_sort = std_sort, OF u t] show ?thesis
    by (cases found) simp_all
qed

lemma getResource_fail_at_all:
  assumes "sort_contract std_sort"
    and "getResource std_sort P settings env tr c = Inr (None, tr', c')"
  shows "DistributedConnectionFailAtAll (sys c') = DistributedConnectionFailAtAll (sys c) + 1"
proof -
  from assms obtain states updated c1 msgs where
    "c' = count_fail_at_all c1"
    "loop_effect (with_pools updated c) c1
       (rounds (std_sort (make_pool_ptrs tr states (pools_size_of tr updated))) 0 (max_tries P) 0)
       msgs"
    by (rule getResource_None)
  then show ?thesis by (simp add: loop_effect_def)
qed

lemma pools_size_of_update:
  "update env ps = Inr (states, updated) \<Longrightarrow> pools_size_of tr updated = pools_size_of tr ps"
  by (cases tr) (simp_all add: pools_size_of_def update_shape(2))

lemma getResource_without_probe:
  assumes "sort_contract std_sort"
    and "decrease_error_period (nested_pools (sys c)) \<noteq> 0"
    and "max_tries P = 0 \<or> pools_size_of tr (nested_pools (sys c)) = 0"
  shows "\<exists>c'. getResource std_sort P settings env tr c = Inr (None, tr, c') \<and>
           tryGet_calls (sys c') = tryGet_calls (sys c) \<and>
           fail_messages c' = fail_messages c \<and>
           DistributedConnectionFailTry (sys c') = DistributedConnectionFailTry (sys c) \<and>
           DistributedConnectionFailAtAll (sys c') = DistributedConnectionFailAtAll (sys c) + 1 \<and>
           decrease_error_period (nested_pools (sys c')) = decrease_error_period (nested_pools (sys c)) \<and>
           length (pools (nested_pools (sys c'))) = length (pools (nested_pools (sys c)))"
proof -
  from getResource_total [OF assms(2)] obtain res tr' c'
    where g: "getResource std_sort P settings env tr c = Inr (res, tr', c')" by blast
  have none: "res = None"
  proof (cases res)
    case (Some p)
    with g have "getResource std_sort P settings env tr c = Inr (Some p, tr', c')" by simp
    with assms(1) obtain states updated m n where
      "update env (nested_pools (sys c)) = Inr (states, updated)"
      "m < max_tries P" "0 < n" "n \<le> pools_size_of tr updated"
      by (rule getResource_Some)
    with assms(3) pools_size_of_update [of env "nested_pools (sys c)" states updated tr]
    show ?thesis by auto
  qed simp
  with g have g': "getResource std_sort P settings env tr c = Inr (None, tr', c')" by simp
  with assms(1) obtain states updated c1 msgs where
    u: "update env (nested_pools (sys c)) = Inr (states, updated)"
    and "tr' = tr" "c' = count_fail_at_all c1"
    and e: "loop_effect (with_pools updated c) c1
       (rounds (std_sort (make_pool_ptrs tr states (pools_size_of tr updated))) 0 (max_tries P) 0)
       msgs"
    and l: "length msgs = max_tries P * pools_size_of tr updated"
    by (rule getResource_None)
  moreover note sz = pools_size_of_update [OF u, of tr]
  moreover from l assms(3) sz have "msgs = []" by auto
  moreover have "rounds (std_sort (make_pool_ptrs tr states (pools_size_of tr updated))) 0 (max_tries P) 0 = []"
    using assms(3) sz
    by (auto simp: rounds_def make_pool_ptrs_def sort_contract_Nil [OF assms(1)])
  ultimately show ?thesis using g' update_shape(2,3) [OF u]
    by (simp add: loop_effect_def)
qed

subsection \<open>get after a failure\<close>

lemma fresh_simps [simp]:
  "entry (fresh s) = None" "fail_messages (fresh s) = []" "sys (fresh s) = s"
  by (simp_all add: fresh_def)

lemma get_failed:
  "getResource std_sort P settings env None (fresh s) = Inr (None, tr', c') \<Longrightarrow>
   get std_sort P settings env s =
     Inr (if skip_unavailable_of settings then Inr None
          else Inl (all_tries_failed (fail_messages c')), sys c')"
  by (simp add: get_def)

lemma get_succeeded:
  "getResource std_sort P settings env None (fresh s) = Inr (Some p, tr', c') \<Longrightarrow>
   get std_sort P settings env s = Inr (Inr (entry c'), sys c')"
  by (simp add: get_def)



subsection \<open>getMany\<close>

lemma tracker_inv_new: "tracker_inv (new_ResourceTracker N) []"
  by (simp add: tracker_inv_def tracker_wf_def new_ResourceTracker_def)

lemma markAsAllocated_inv:
  assumes "tracker_inv t taken" and "i < unallocated_size t"
  shows "tracker_inv (markAsAllocated t i) (taken @ [handles t ! i])"
proof -
  let ?hs = "handles t" and ?u = "unallocated_size t"
  let ?j = "?u - 1"
  let ?hs' = "?hs[i := ?hs ! ?j, ?j := ?hs ! i]"
  from assms have wf: "tracker_wf t" and d: "distinct ?hs" and dt: "distinct taken"
    and st: "set taken = set (drop ?u ?hs)" by (simp_all add: tracker_inv_def)
  from assms(2) wf have j: "?j < length ?hs" "i \<le> ?j" "Suc ?j = ?u" and i: "i < length ?hs"
    by (simp_all add: tracker_wf_def)
  have dec: "size_t_decrement ?u = ?j" using assms(2) by (simp add: size_t_decrement_def)
  have hs': "handles (markAsAllocated t i) = ?hs'"
    and u': "unallocated_size (markAsAllocated t i) = ?j"
    by (simp_all add: markAsAllocated_def dec Let_def)
  note m = markAsAllocated_handles [OF assms(2) wf]
  from m(1) d have d': "distinct (handles (markAsAllocated t i))"
    by (metis mset_eq_imp_distinct_iff)
  have jl: "?j < length ?hs'" using j(1) by simp
  have "drop ?j ?hs' = ?hs' ! ?j # drop (Suc ?j) ?hs'"
    by (rule Cons_nth_drop_Suc [symmetric, OF jl])
  also have "?hs' ! ?j = ?hs ! i" using j(1) by simp
  also have "drop (Suc ?j) ?hs' = drop ?u ?hs" using j(2,3) by simp
  finally have dr: "drop ?j ?hs' = ?hs ! i # drop ?u ?hs" .
  have "?hs ! i \<in> set (take ?u ?hs)"
    using assms(2) i by (auto simp: in_set_conv_nth intro!: exI [of _ i])
  moreover from d have "set (take ?u ?hs) \<inter> set (drop ?u ?hs) = {}"
    by (metis append_take_drop_id distinct_append)
  ultimately have notin: "?hs ! i \<notin> set taken" using st by auto
  show ?thesis
    unfolding tracker_inv_def hs' u'
    using m(4) d' dt st notin dr by (simp add: hs' u')
qed

lemma getResource_tracker_step:
  assumes "sort_contract std_sort"
    and "getResource std_sort P settings env (Some t) c = Inr (Some p, tr', c')"
  obtains i where "i < unallocated_size t" "p = handles t ! i" "tr' = Some (markAsAllocated t i)"
proof -
  from assms obtain states updated r where
    "r \<in> set (make_pool_ptrs (Some t) states (pools_size_of (Some t) updated))"
    "p = pool r" "tr' = map_option (\<lambda>t. markAsAllocated t (index r)) (Some t)"
    by (rule getResource_Some)
  with in_make_pool_ptrs [of r "Some t" states "pools_size_of (Some t) updated"]
  have "index r < unallocated_size t" "p = handles t ! index r"
    "tr' = Some (markAsAllocated t (index r))"
    by (simp_all add: pools_size_of_def getUnallocatedSize_def getHandle_def)
  then show ?thesis by (rule that)
qed

lemma getMany_loop_done:
  "\<not> i < max_connections_of settings \<Longrightarrow>
   getMany_loop std_sort P settings envs i tr connections s = Inr (Inr connections, s)"
  by (simp add: getMany_loop.simps)

lemma getMany_loop_fault:
  "i < max_connections_of settings \<Longrightarrow>
   getResource std_sort P settings (envs i) tr (fresh s) = Inl f \<Longrightarrow>
   getMany_loop std_sort P settings envs i tr connections s = Inl f"
  by (subst getMany_loop.simps) simp

lemma getMany_loop_found:
  "i < max_connections_of settings \<Longrightarrow>
   getResource std_sort P settings (envs i) tr (fresh s) = Inr (Some p, tr', c) \<Longrightarrow>
   getMany_loop std_sort P settings envs i tr connections s =
     getMany_loop std_sort P settings envs (Suc i) tr' (connections @ [(p, entry c)]) (sys c)"
  by (subst getMany_loop.simps) simp

lemma getMany_loop_stop:
  "i < max_connections_of settings \<Longrightarrow>
   getResource std_sort P settings (envs i) tr (fresh s) = Inr (None, tr', c) \<Longrightarrow>
   getMany_loop std_sort P settings envs i tr connections s =
     (if i = 0 \<and> \<not> skip_unavailable_of settings
        then Inr (Inl (all_tries_failed (fail_messages c)), sys c)
      else Inr (Inr connections, sys c))"
  by (subst getMany_loop.simps) simp

text \<open>The two ways out of the reservation.\<close>

lemma reserve_nothing [simp]: "reserve alloc 0 = None"
  by (simp add: reserve_def)

lemma getMany_reserved:
  "reserve alloc (max_connections_of settings) = None \<Longrightarrow>
   getMany alloc std_sort P settings envs s =
     getMany_loop std_sort P settings envs 0
       (Some (new_ResourceTracker (length (pools (nested_pools s))))) [] s"
  by (simp add: getMany_def)

lemma getMany_not_reserved:
  "reserve alloc (max_connections_of settings) = Some e \<Longrightarrow>
   getMany alloc std_sort P settings envs s = Inr (Inl e, s)"
  by (simp add: getMany_def)

lemma getMany_loop_inv:
  assumes "sort_contract std_sort"
  shows "getMany_loop std_sort P settings envs i (Some t) connections s = Inr (Inr result, s') \<Longrightarrow>
     tracker_inv t (map fst connections) \<Longrightarrow> length connections = i \<Longrightarrow>
     i \<le> max_connections_of settings \<Longrightarrow>
     length result \<le> max_connections_of settings \<and> distinct (map fst result)"
proof (induction "max_connections_of settings - i" arbitrary: i t connections s)
  case 0
  then have "\<not> i < max_connections_of settings" by simp
  with "0.prems" show ?case by (simp add: getMany_loop_done tracker_inv_def)
next
  case (Suc k)
  then have lt: "i < max_connections_of settings" by simp
  show ?case
  proof (cases "getResource std_sort P settings (envs i) (Some t) (fresh s)")
    case (Inl f)
    with lt Suc.prems(1) show ?thesis by (simp add: getMany_loop_fault)
  next
    case (Inr x)
    obtain res tr' c where x: "x = (res, tr', c)" by (cases x) auto
    show ?thesis
    proof (cases res)
      case None
      with Inr x lt Suc.prems show ?thesis
        by (auto simp: getMany_loop_stop tracker_inv_def split: if_splits)
    next
      case (Some p)
      with Inr x have g: "getResource std_sort P settings (envs i) (Some t) (fresh s)
                          = Inr (Some p, tr', c)" by simp
      from assms g obtain j where j: "j < unallocated_size t" "p = handles t ! j"
        "tr' = Some (markAsAllocated t j)" by (rule getResource_tracker_step)
      from markAsAllocated_inv [OF Suc.prems(2) j(1)] j(2)
      have inv: "tracker_inv (markAsAllocated t j) (map fst (connections @ [(p, entry c)]))"
        by simp
      from Suc.prems(1) getMany_loop_found [where envs = envs and i = i, OF lt g] j(3)
      have rec: "getMany_loop std_sort P settings envs (Suc i) (Some (markAsAllocated t j))
                   (connections @ [(p, entry c)]) (sys c) = Inr (Inr result, s')" by simp
      from Suc.hyps(2) lt have k: "k = max_connections_of settings - Suc i" by simp
      from Suc.hyps(1) [OF k rec inv] Suc.prems(3) lt show ?thesis by simp
    qed
  qed
qed

text \<open>
  Claim C3.  Whatever \<^verbatim>\<open>tryGet\<close> answers on each attempt (its answers may depend on its own
  state, that is on the whole history), a list returned by \<open>getMany\<close> has at most
  \<^verbatim>\<open>max_connections\<close> elements, and no two of them were obtained from the same index of
  \<open>nested_pools\<close>.
\<close>

theorem getMany_distinct_replicas:
  assumes "sort_contract std_sort"
    and "getMany alloc std_sort P settings envs s = Inr (Inr connections, s')"
  shows "length connections \<le> max_connections_of settings \<and> distinct (map fst connections)"
proof (cases "reserve alloc (max_connections_of settings)")
  case (Some e)
  with assms(2) show ?thesis by (simp add: getMany_not_reserved)
next
  case None
  with assms(2) getMany_loop_inv [OF assms(1), of P settings envs 0
      "new_ResourceTracker (length (pools (nested_pools s)))" "[]" s connections s']
    tracker_inv_new
  show ?thesis by (simp add: getMany_reserved)
qed

lemma getMany_flaky:
  "\<exists>s'. getMany small_memory insertion_sort flaky_pool (Some two_connections) (\<lambda>i. at_noon)
          three_replicas
          = Inr (Inr [(1, Some 1), (2, Some 2)], s')"
  by (simp add: getMany_def reserve_def small_memory_def getMany_loop.simps getResource_def update_def flaky_pool_def
      three_replicas_def two_connections_def at_noon_def max_connections_of_def
      skip_unavailable_of_def new_ResourceTracker_def getUnallocatedSize_def getHandle_def
      markAsAllocated_def size_t_decrement_def
      fresh_def make_pool_ptrs_def insertion_sort_def sort_key_of_def try_loop.simps Let_def
      randomize_def increment_def add_error_def set_error_count_def upt_rec
      shift_amount_of_def signed_divide_int_def sizeof_UInt64_def numeral_3_eq_3)

theorem getMany_distinct_replicas_witness:
  "\<exists>s'. getMany small_memory insertion_sort flaky_pool (Some two_connections) (\<lambda>i. at_noon)
          three_replicas
          = Inr (Inr [(1, Some 1), (2, Some 2)], s') \<and>
        length [(1 :: nat, Some (1 :: nat)), (2, Some 2)] \<le> max_connections_of (Some two_connections) \<and>
        distinct (map fst [(1 :: nat, Some (1 :: nat)), (2, Some 2)])"
proof -
  from getMany_flaky obtain s' where
    g: "getMany small_memory insertion_sort flaky_pool (Some two_connections) (\<lambda>i. at_noon)
          three_replicas
          = Inr (Inr [(1, Some 1), (2, Some 2)], s')" by blast
  from getMany_distinct_replicas [OF insertion_sort_contract g] g show ?thesis by blast
qed

text \<open>When every \<^verbatim>\<open>tryGet\<close> succeeds.\<close>

lemma try_loop_all_ok:
  assumes "\<forall>i st e h. ok (fst (tryGet P i st e h))" and "0 < max_tries P" and "rs \<noteq> []"
  shows "\<exists>c1. try_loop P settings rs 0 c = (Some (hd rs), c1) \<and>
              loop_effect c c1 [(0, pool (hd rs))] []"
proof -
  from assms(3) obtain r rs' where rs: "rs = r # rs'" by (cases rs) auto
  obtain tr h where call: "tryGet P (pool r) settings (entry c) (hook_state (sys c)) = (tr, h)"
    by fastforce
  with assms(1) have "ok tr" by (metis fst_conv)
  with call have "probe_pools P settings 0 rs c =
      (Some r, c\<lparr>entry := out_entry tr,
                 sys := (sys c)\<lparr>hook_state := h,
                          tryGet_calls := tryGet_calls (sys c) @ [(0, pool r)]\<rparr>\<rparr>)"
    by (simp add: rs Let_def)
  from try_loop_found [OF assms(2) this] show ?thesis
    by (simp add: rs loop_effect_def)
qed

lemma getResource_all_ok:
  assumes "sort_contract std_sort"
    and "\<forall>i st e h. ok (fst (tryGet P i st e h))" and "0 < max_tries P"
    and "decrease_error_period (nested_pools (sys c)) \<noteq> 0"
    and "0 < pools_size_of tr (nested_pools (sys c))"
  shows "\<exists>p tr' c'. getResource std_sort P settings env tr c = Inr (Some p, tr', c') \<and>
           length (tryGet_calls (sys c')) = Suc (length (tryGet_calls (sys c))) \<and>
           DistributedConnectionFailTry (sys c') = DistributedConnectionFailTry (sys c) \<and>
           DistributedConnectionFailAtAll (sys c') = DistributedConnectionFailAtAll (sys c) \<and>
           decrease_error_period (nested_pools (sys c')) = decrease_error_period (nested_pools (sys c)) \<and>
           length (pools (nested_pools (sys c'))) = length (pools (nested_pools (sys c)))"
proof -
  from update_total [OF assms(4)] obtain states updated
    where u: "update env (nested_pools (sys c)) = Inr (states, updated)" by blast
  let ?rs = "std_sort (make_pool_ptrs tr states (pools_size_of tr updated))"
  from assms(5) pools_size_of_update [OF u, of tr] have "length ?rs \<noteq> 0"
    by (simp add: sort_contract_length [OF assms(1)])
  then have "?rs \<noteq> []" by auto
  from try_loop_all_ok [OF assms(2,3) this, of settings "with_pools updated c"] obtain c1
    where t: "try_loop P settings ?rs 0 (with_pools updated c) = (Some (hd ?rs), c1)"
      and e: "loop_effect (with_pools updated c) c1 [(0, pool (hd ?rs))] []"
    by blast
  from getResource_unfold [where std_sort = std_sort, OF u t]
  have "getResource std_sort P settings env tr c =
          Inr (Some (pool (hd ?rs)), map_option (\<lambda>t. markAsAllocated t (index (hd ?rs))) tr, c1)"
    by simp
  with e update_shape(2,3) [OF u] show ?thesis by (simp add: loop_effect_def)
qed

lemma getMany_loop_all_ok:
  assumes "sort_contract std_sort"
    and "\<forall>i st e h. ok (fst (tryGet P i st e h))" and "0 < max_tries P"
  shows "tracker_wf t \<Longrightarrow> decrease_error_period (nested_pools s) \<noteq> 0 \<Longrightarrow>
     i + unallocated_size t < max_connections_of settings \<Longrightarrow>
     \<exists>res s'. getMany_loop std_sort P settings envs i (Some t) connections s = Inr (res, s') \<and>
        DistributedConnectionFailAtAll s' = DistributedConnectionFailAtAll s + 1 \<and>
        DistributedConnectionFailTry s' = DistributedConnectionFailTry s \<and>
        length (tryGet_calls s') = length (tryGet_calls s) + unallocated_size t \<and>
        (case res of
           Inr result \<Rightarrow> length result = length connections + unallocated_size t
         | Inl e \<Rightarrow> i + unallocated_size t = 0 \<and> \<not> skip_unavailable_of settings)"
proof (induction "unallocated_size t" arbitrary: i t connections s)
  case 0
  then have lt: "i < max_connections_of settings" by simp
  let ?c = "fresh s :: ('a, 'b) Ctx"
  from 0 have z: "max_tries P = 0 \<or> pools_size_of (Some t) (nested_pools (sys ?c)) = 0"
    by (simp add: pools_size_of_def getUnallocatedSize_def)
  from "0.prems"(2) have p: "decrease_error_period (nested_pools (sys ?c)) \<noteq> 0" by simp
  from getResource_without_probe [OF assms(1) p z, of settings "envs i"]
  obtain c' where g: "getResource std_sort P settings (envs i) (Some t) (fresh s) = Inr (None, Some t, c')"
    and e: "tryGet_calls (sys c') = tryGet_calls (sys ?c)"
      "DistributedConnectionFailTry (sys c') = DistributedConnectionFailTry (sys ?c)"
      "DistributedConnectionFailAtAll (sys c') = DistributedConnectionFailAtAll (sys ?c) + 1"
    by auto
  have "getMany_loop std_sort P settings envs i (Some t) connections s =
     (if i = 0 \<and> \<not> skip_unavailable_of settings
        then Inr (Inl (all_tries_failed (fail_messages c')), sys c')
      else Inr (Inr connections, sys c'))"
    by (rule getMany_loop_stop [where envs = envs and i = i, OF lt g])
  with e "0.hyps" show ?case by simp
next
  case (Suc u)
  then have lt: "i < max_connections_of settings" by simp
  let ?c = "fresh s :: ('a, 'b) Ctx"
  from Suc.hyps(2) have z: "0 < pools_size_of (Some t) (nested_pools (sys ?c))"
    by (simp add: pools_size_of_def getUnallocatedSize_def)
  from Suc.prems(2) have p: "decrease_error_period (nested_pools (sys ?c)) \<noteq> 0" by simp
  from getResource_all_ok [OF assms p z, of settings "envs i"]
  obtain p tr' c' where
    g: "getResource std_sort P settings (envs i) (Some t) (fresh s) = Inr (Some p, tr', c')"
    and c: "length (tryGet_calls (sys c')) = Suc (length (tryGet_calls (sys ?c)))"
    and f: "DistributedConnectionFailTry (sys c') = DistributedConnectionFailTry (sys ?c)"
    and a: "DistributedConnectionFailAtAll (sys c') = DistributedConnectionFailAtAll (sys ?c)"
    and d: "decrease_error_period (nested_pools (sys c')) = decrease_error_period (nested_pools (sys ?c))"
    by auto
  from assms(1) g obtain j where j: "j < unallocated_size t" "tr' = Some (markAsAllocated t j)"
    by (rule getResource_tracker_step)
  note m = markAsAllocated_handles [OF j(1) Suc.prems(1)]
  from m(3) Suc.hyps(2) have u: "u = unallocated_size (markAsAllocated t j)" by simp
  from Suc.prems(3) Suc.hyps(2) u
  have b: "Suc i + unallocated_size (markAsAllocated t j) < max_connections_of settings" by simp
  from d Suc.prems(2) have d': "decrease_error_period (nested_pools (sys c')) \<noteq> 0" by simp
  have step: "getMany_loop std_sort P settings envs i (Some t) connections s =
     getMany_loop std_sort P settings envs (Suc i) (Some (markAsAllocated t j))
       (connections @ [(p, entry c')]) (sys c')"
    using getMany_loop_found [where envs = envs and i = i, OF lt g] j(2) by simp
  let ?cs = "connections @ [(p, entry c')]" and ?t = "markAsAllocated t j"
  from Suc.hyps(1) [OF u m(4) d' b, of ?cs]
  obtain res s' where all:
    "getMany_loop std_sort P settings envs (Suc i) (Some ?t) ?cs (sys c') = Inr (res, s') \<and>
     DistributedConnectionFailAtAll s' = DistributedConnectionFailAtAll (sys c') + 1 \<and>
     DistributedConnectionFailTry s' = DistributedConnectionFailTry (sys c') \<and>
     length (tryGet_calls s') = length (tryGet_calls (sys c')) + unallocated_size ?t \<and>
     (case res of
        Inr result \<Rightarrow> length result = length ?cs + unallocated_size ?t
      | Inl e \<Rightarrow> Suc i + unallocated_size ?t = 0 \<and> \<not> skip_unavailable_of settings)"
    by (elim exE)
  then have r: "getMany_loop std_sort P settings envs (Suc i) (Some ?t) ?cs (sys c') = Inr (res, s')"
    and r1: "DistributedConnectionFailAtAll s' = DistributedConnectionFailAtAll (sys c') + 1"
    and r2: "DistributedConnectionFailTry s' = DistributedConnectionFailTry (sys c')"
    and r3: "length (tryGet_calls s') = length (tryGet_calls (sys c')) + unallocated_size ?t"
    and r4: "case res of
        Inr result \<Rightarrow> length result = length ?cs + unallocated_size ?t
      | Inl e \<Rightarrow> Suc i + unallocated_size ?t = 0 \<and> \<not> skip_unavailable_of settings"
    by simp_all
  from r4 obtain result where res: "res = Inr result"
    and len: "length result = length connections + Suc (unallocated_size (markAsAllocated t j))"
    by (cases res) simp_all
  show ?case
  proof (intro exI conjI)
    show "getMany_loop std_sort P settings envs i (Some t) connections s = Inr (Inr result, s')"
      using step r res by simp
    show "DistributedConnectionFailAtAll s' = DistributedConnectionFailAtAll s + 1"
      using r1 a by simp
    show "DistributedConnectionFailTry s' = DistributedConnectionFailTry s"
      using r2 f by simp
    show "length (tryGet_calls s') = length (tryGet_calls s) + unallocated_size t"
      using r3 c u Suc.hyps(2) by simp
    show "case Inr result of
           Inr result \<Rightarrow> length result = length connections + unallocated_size t
         | Inl e \<Rightarrow> i + unallocated_size t = 0 \<and> \<not> skip_unavailable_of settings"
      using len u Suc.hyps(2) by simp
  qed
qed

lemma getMany_all_ok:
  assumes "sort_contract std_sort"
    and "\<forall>i st e h. ok (fst (tryGet P i st e h))" and "0 < max_tries P"
    and "decrease_error_period (nested_pools s) \<noteq> 0"
    and "length (pools (nested_pools s)) < max_connections_of settings"
    and "reserve alloc (max_connections_of settings) = None"
  shows "\<exists>res s'. getMany alloc std_sort P settings envs s = Inr (res, s') \<and>
        DistributedConnectionFailAtAll s' = DistributedConnectionFailAtAll s + 1 \<and>
        DistributedConnectionFailTry s' = DistributedConnectionFailTry s \<and>
        length (tryGet_calls s') = length (tryGet_calls s) + length (pools (nested_pools s)) \<and>
        (case res of
           Inr result \<Rightarrow> length result = length (pools (nested_pools s))
         | Inl e \<Rightarrow> pools (nested_pools s) = [] \<and> \<not> skip_unavailable_of settings)"
  using getMany_loop_all_ok [OF assms(1-3), of "new_ResourceTracker (length (pools (nested_pools s)))"
      s 0 settings envs "[]"] assms(4,5)
  by (simp add: getMany_reserved [OF assms(6)] tracker_wf_def new_ResourceTracker_def
      split: sum.splits cong: sum.case_cong)

text \<open>
  Claim C10, as the code has it.  Whenever \<open>getResource\<close> returns \<^verbatim>\<open>false\<close> it has incremented
  \<^verbatim>\<open>DistributedConnectionFailAtAll\<close> by exactly one.  This includes the calls that never
  reach \<^verbatim>\<open>tryGet\<close>: with \<open>max_tries = 0\<close>, with no nested pool, or with a tracker whose
  handles are all allocated, the call returns \<^verbatim>\<open>false\<close>, makes no \<^verbatim>\<open>tryGet\<close> call and counts
  one failure.  Consequently, when \<^verbatim>\<open>max_parallel_replicas\<close> exceeds the number \<open>N\<close> of
  nested pools, the vector of connections could reserve room for that many entries and
  every \<^verbatim>\<open>tryGet\<close> succeeds, \<open>getMany\<close> makes \<open>N\<close> calls of \<^verbatim>\<open>tryGet\<close>, collects \<open>N\<close>
  connections, counts no failed try, and still counts one
  \<^verbatim>\<open>DistributedConnectionFailAtAll\<close>, from the iteration that finds no handle left.  When
  the reservation throws, \<open>getMany\<close> ends with that exception and has changed nothing.
\<close>

theorem fail_at_all_on_every_failure:
  assumes "sort_contract std_sort"
  shows "(\<forall>tr' c'. getResource std_sort P settings env tr c = Inr (None, tr', c') \<longrightarrow>
            DistributedConnectionFailAtAll (sys c') = DistributedConnectionFailAtAll (sys c) + 1)
       \<and> (decrease_error_period (nested_pools (sys c)) \<noteq> 0 \<and>
          (max_tries P = 0 \<or>
           (case tr of None \<Rightarrow> pools (nested_pools (sys c)) = []
                     | Some t \<Rightarrow> unallocated_size t = 0)) \<longrightarrow>
          (\<exists>c'. getResource std_sort P settings env tr c = Inr (None, tr, c') \<and>
                tryGet_calls (sys c') = tryGet_calls (sys c) \<and>
                DistributedConnectionFailAtAll (sys c') =
                  DistributedConnectionFailAtAll (sys c) + 1))
       \<and> (decrease_error_period (nested_pools s) \<noteq> 0 \<and> 0 < max_tries P \<and>
          (\<forall>i st e h. ok (fst (tryGet P i st e h))) \<and>
          length (pools (nested_pools s)) < max_connections_of settings \<and>
          reserve alloc (max_connections_of settings) = None \<longrightarrow>
          (\<exists>res s'. getMany alloc std_sort P settings envs s = Inr (res, s') \<and>
             DistributedConnectionFailAtAll s' = DistributedConnectionFailAtAll s + 1 \<and>
             DistributedConnectionFailTry s' = DistributedConnectionFailTry s \<and>
             length (tryGet_calls s') = length (tryGet_calls s) + length (pools (nested_pools s)) \<and>
             (case res of
                Inr result \<Rightarrow> length result = length (pools (nested_pools s))
              | Inl e \<Rightarrow> pools (nested_pools s) = [] \<and> \<not> skip_unavailable_of settings)))
       \<and> (\<forall>e. reserve alloc (max_connections_of settings) = Some e \<longrightarrow>
            getMany alloc std_sort P settings envs s = Inr (Inl e, s))"
proof (intro conjI allI impI)
  fix tr' c'
  assume "getResource std_sort P settings env tr c = Inr (None, tr', c')"
  with assms show "DistributedConnectionFailAtAll (sys c') =
      DistributedConnectionFailAtAll (sys c) + 1"
    by (rule getResource_fail_at_all)
next
  assume a: "decrease_error_period (nested_pools (sys c)) \<noteq> 0 \<and>
          (max_tries P = 0 \<or>
           (case tr of None \<Rightarrow> pools (nested_pools (sys c)) = []
                     | Some t \<Rightarrow> unallocated_size t = 0))"
  then have "max_tries P = 0 \<or> pools_size_of tr (nested_pools (sys c)) = 0"
    by (cases tr) (auto simp: pools_size_of_def getUnallocatedSize_def)
  from getResource_without_probe [OF assms _ this, of settings env] a
  show "\<exists>c'. getResource std_sort P settings env tr c = Inr (None, tr, c') \<and>
                tryGet_calls (sys c') = tryGet_calls (sys c) \<and>
                DistributedConnectionFailAtAll (sys c') =
                  DistributedConnectionFailAtAll (sys c) + 1"
    by blast
next
  assume "decrease_error_period (nested_pools s) \<noteq> 0 \<and> 0 < max_tries P \<and>
          (\<forall>i st e h. ok (fst (tryGet P i st e h))) \<and>
          length (pools (nested_pools s)) < max_connections_of settings \<and>
          reserve alloc (max_connections_of settings) = None"
  then show "\<exists>res s'. getMany alloc std_sort P settings envs s = Inr (res, s') \<and>
             DistributedConnectionFailAtAll s' = DistributedConnectionFailAtAll s + 1 \<and>
             DistributedConnectionFailTry s' = DistributedConnectionFailTry s \<and>
             length (tryGet_calls s') = length (tryGet_calls s) + length (pools (nested_pools s)) \<and>
             (case res of
                Inr result \<Rightarrow> length result = length (pools (nested_pools s))
              | Inl e \<Rightarrow> pools (nested_pools s) = [] \<and> \<not> skip_unavailable_of settings)"
    using getMany_all_ok [OF assms, of P s settings alloc envs] by blast
next
  fix e
  assume "reserve alloc (max_connections_of settings) = Some e"
  then show "getMany alloc std_sort P settings envs s = Inr (Inl e, s)"
    by (rule getMany_not_reserved)
qed

lemma getResource_failing_pool:
  "\<exists>c'. getResource insertion_sort failing_pool settings at_noon None (fresh one_replica)
          = Inr (None, None, c')"
  by (simp add: getResource_def update_def failing_pool_def one_replica_def at_noon_def
      fresh_def make_pool_ptrs_def insertion_sort_def try_loop.simps Let_def
      randomize_def increment_def add_error_def set_error_count_def)

lemma reserve_small_memory:
  "reserve small_memory (max_connections_of None) = None"
  "reserve small_memory (max_connections_of (Some skipping)) = None"
  "reserve small_memory (max_connections_of (Some five_connections)) = None"
  "reserve small_memory (max_connections_of (Some all_replicas)) = Some length_error"
  by (simp_all add: reserve_def small_memory_def max_connections_of_def skipping_def
      five_connections_def all_replicas_def)

theorem fail_at_all_on_every_failure_witness:
  "(\<exists>c'. getResource insertion_sort failing_pool None at_noon None (fresh one_replica)
            = Inr (None, None, c') \<and>
         DistributedConnectionFailAtAll (sys c') = 1) \<and>
   (\<exists>c'. getResource insertion_sort failing_pool None at_noon None (fresh no_replicas)
            = Inr (None, None, c') \<and>
         tryGet_calls (sys c') = [] \<and> DistributedConnectionFailAtAll (sys c') = 1) \<and>
   (\<exists>res s'. getMany small_memory insertion_sort reliable_pool (Some five_connections)
              always_noon three_replicas
            = Inr (res, s') \<and>
         DistributedConnectionFailAtAll s' = 1 \<and> DistributedConnectionFailTry s' = 0 \<and>
         length (tryGet_calls s') = 3 \<and>
         (case res of Inr result \<Rightarrow> length result = 3 | Inl e \<Rightarrow> False)) \<and>
   getMany small_memory insertion_sort reliable_pool (Some all_replicas) always_noon three_replicas
     = Inr (Inl length_error, three_replicas)"
proof -
  note main = fail_at_all_on_every_failure [OF insertion_sort_contract]
  from getResource_failing_pool [of None] obtain c1 where
    g: "getResource insertion_sort failing_pool None at_noon None (fresh one_replica)
          = Inr (None, None, c1)" by blast
  from main [where P = failing_pool and settings = None and env = at_noon and tr = None
      and c = "fresh one_replica", THEN conjunct1] g
  have 1: "DistributedConnectionFailAtAll (sys c1) = 1"
    by (simp add: one_replica_def)
  from main [where P = failing_pool and settings = None and env = at_noon and tr = None
      and c = "fresh no_replicas", THEN conjunct2, THEN conjunct1]
  have 2: "\<exists>c'. getResource insertion_sort failing_pool None at_noon None (fresh no_replicas)
            = Inr (None, None, c') \<and>
         tryGet_calls (sys c') = [] \<and> DistributedConnectionFailAtAll (sys c') = 1"
    by (simp add: no_replicas_def)
  from main [where P = reliable_pool and settings = "Some five_connections"
      and s = three_replicas and envs = always_noon and alloc = small_memory,
      THEN conjunct2, THEN conjunct2, THEN conjunct1] reserve_small_memory(3)
  have 3: "\<exists>res s'. getMany small_memory insertion_sort reliable_pool (Some five_connections)
              always_noon three_replicas
            = Inr (res, s') \<and>
         DistributedConnectionFailAtAll s' = 1 \<and> DistributedConnectionFailTry s' = 0 \<and>
         length (tryGet_calls s') = 3 \<and>
         (case res of Inr result \<Rightarrow> length result = 3 | Inl e \<Rightarrow> False)"
    by (simp add: reliable_pool_def five_connections_def three_replicas_def
        max_connections_of_def cong: sum.case_cong)
  from main [where P = reliable_pool and settings = "Some all_replicas"
      and s = three_replicas and envs = always_noon and alloc = small_memory,
      THEN conjunct2, THEN conjunct2, THEN conjunct2] reserve_small_memory(4)
  have 4: "getMany small_memory insertion_sort reliable_pool (Some all_replicas) always_noon
             three_replicas = Inr (Inl length_error, three_replicas)"
    by simp
  from g 1 2 3 4 show ?thesis by blast
qed

text \<open>
  Claim C10 as stated fails: three nested pools whose \<^verbatim>\<open>tryGet\<close> always succeeds and
  \<^verbatim>\<open>max_parallel_replicas = 2 ^ 64 - 1\<close>, which is more than three and more than a vector of
  entries can hold.  \<open>getMany\<close> throws \<^verbatim>\<open>std::length_error\<close> from \<^verbatim>\<open>reserve\<close>, before its first
  iteration: no replica is acquired and \<^verbatim>\<open>DistributedConnectionFailAtAll\<close> is not
  incremented.
\<close>

theorem getMany_reserve_throws:
  "getMany small_memory insertion_sort reliable_pool (Some all_replicas) always_noon three_replicas
     = Inr (Inl length_error, three_replicas) \<and>
   length (pools (nested_pools three_replicas)) < max_connections_of (Some all_replicas) \<and>
   DistributedConnectionFailAtAll three_replicas = 0"
  by (simp add: getMany_def reserve_def small_memory_def max_connections_of_def
      all_replicas_def three_replicas_def)

text \<open>Without nested pools.\<close>

lemma getMany_no_replicas:
  assumes "sort_contract std_sort"
    and "pools (nested_pools s) = []"
    and "decrease_error_period (nested_pools s) \<noteq> 0"
  shows "\<exists>s'. getMany alloc std_sort P settings envs s =
           Inr (case reserve alloc (max_connections_of settings) of
                  Some e \<Rightarrow> Inl e
                | None \<Rightarrow>
                    if max_connections_of settings = 0 \<or> skip_unavailable_of settings
                      then Inr []
                    else Inl (all_tries_failed []), s') \<and>
           tryGet_calls s' = tryGet_calls s"
proof (cases "reserve alloc (max_connections_of settings)")
  case (Some e)
  then show ?thesis by (simp add: getMany_not_reserved)
next
  case None
  note r = getMany_reserved [OF None]
  show ?thesis
  proof (cases "0 < max_connections_of settings")
    case False
    with None show ?thesis by (simp add: r getMany_loop_done)
  next
    case True
    let ?t = "new_ResourceTracker (length (pools (nested_pools s)))"
    from getResource_without_probe [OF assms(1), where c = "fresh s" and P = P and tr = "Some ?t"
        and settings = settings and env = "envs 0"] assms(2,3)
    obtain c' where g: "getResource std_sort P settings (envs 0) (Some ?t) (fresh s) = Inr (None, Some ?t, c')"
      and e: "tryGet_calls (sys c') = tryGet_calls s" "fail_messages c' = []"
      by (auto simp: pools_size_of_def getUnallocatedSize_def new_ResourceTracker_def)
    from getMany_loop_stop [where envs = envs and i = 0, OF True g, of "[]"] e True None
    show ?thesis by (simp add: r)
  qed
qed

text \<open>
  Claim C4, as the code has it.  With no nested pool, \<open>getResource\<close> returns \<^verbatim>\<open>false\<close>
  without calling \<^verbatim>\<open>tryGet\<close>, whatever \<open>max_tries\<close> and the settings are.  \<open>get\<close> then
  returns the default entry if \<^verbatim>\<open>skip_unavailable_shards\<close> is set and throws otherwise.
  \<open>getMany\<close> first reserves room for \<^verbatim>\<open>max_parallel_replicas\<close> entries and ends with the
  exception of \<^verbatim>\<open>reserve\<close> if there is one; otherwise it returns the empty list if
  \<^verbatim>\<open>skip_unavailable_shards\<close> is set or \<^verbatim>\<open>max_parallel_replicas\<close> is 0, and throws the
  NetException with an empty log of failures if not.  None of the three calls \<^verbatim>\<open>tryGet\<close>.
\<close>

theorem no_replicas_fail:
  assumes "sort_contract std_sort"
    and "pools (nested_pools s) = []"
    and "decrease_error_period (nested_pools s) \<noteq> 0"
  shows "(\<exists>c'. getResource std_sort P settings env None (fresh s) = Inr (None, None, c') \<and>
              tryGet_calls (sys c') = tryGet_calls s) \<and>
         (\<exists>s'. get std_sort P settings env s =
              Inr (if skip_unavailable_of settings then Inr None
                   else Inl (NetException
                               (''All connection tries failed. Log: '' @ endl @ endl @ endl)
                               ALL_CONNECTION_TRIES_FAILED), s') \<and>
              tryGet_calls s' = tryGet_calls s) \<and>
         (\<exists>s'. getMany alloc std_sort P settings envs s =
              Inr (case reserve alloc (max_connections_of settings) of
                     Some e \<Rightarrow> Inl e
                   | None \<Rightarrow>
                       if max_connections_of settings = 0 \<or> skip_unavailable_of settings
                         then Inr []
                       else Inl (NetException
                                   (''All connection tries failed. Log: '' @ endl @ endl @ endl)
                                   ALL_CONNECTION_TRIES_FAILED), s') \<and>
              tryGet_calls s' = tryGet_calls s)"
proof -
  from getResource_without_probe [OF assms(1), where c = "fresh s" and P = P and tr = None
      and settings = settings and env = env] assms(2,3)
  obtain c' where g: "getResource std_sort P settings env None (fresh s) = Inr (None, None, c')"
    and e: "tryGet_calls (sys c') = tryGet_calls s" "fail_messages c' = []"
    by (auto simp: pools_size_of_def)
  from get_failed [OF g] e
  have "get std_sort P settings env s =
              Inr (if skip_unavailable_of settings then Inr None
                   else Inl (NetException
                               (''All connection tries failed. Log: '' @ endl @ endl @ endl)
                               ALL_CONNECTION_TRIES_FAILED), sys c')"
    by (simp add: all_tries_failed_def)
  with g e getMany_no_replicas [OF assms, of alloc P settings envs] show ?thesis
    by (auto simp: all_tries_failed_def split: option.splits)
qed

theorem no_replicas_fail_witness:
  "(\<exists>c'. getResource insertion_sort failing_pool None at_noon None (fresh no_replicas)
            = Inr (None, None, c') \<and> tryGet_calls (sys c') = []) \<and>
   (\<exists>s'. get insertion_sort failing_pool (Some skipping) at_noon no_replicas = Inr (Inr None, s')) \<and>
   (\<exists>s'. getMany small_memory insertion_sort failing_pool (Some skipping) always_noon no_replicas
            = Inr (Inr [], s')) \<and>
   (\<exists>s'. getMany small_memory insertion_sort failing_pool (Some all_replicas) always_noon
            no_replicas = Inr (Inl length_error, s'))"
proof -
  have "pools (nested_pools no_replicas) = []"
    and "decrease_error_period (nested_pools no_replicas) \<noteq> 0"
    by (simp_all add: no_replicas_def)
  note n = no_replicas_fail [OF insertion_sort_contract this]
  have s: "skip_unavailable_of (Some skipping)"
    by (simp add: skip_unavailable_of_def skipping_def)
  from n [where P = failing_pool and settings = None and env = at_noon, THEN conjunct1]
  have 1: "\<exists>c'. getResource insertion_sort failing_pool None at_noon None (fresh no_replicas)
            = Inr (None, None, c') \<and> tryGet_calls (sys c') = []"
    by (simp add: no_replicas_def)
  from n [where P = failing_pool and settings = "Some skipping" and env = at_noon,
      THEN conjunct2, THEN conjunct1] s
  have 2: "\<exists>s'. get insertion_sort failing_pool (Some skipping) at_noon no_replicas = Inr (Inr None, s')"
    by auto
  from n [where P = failing_pool and settings = "Some skipping" and envs = always_noon
      and alloc = small_memory, THEN conjunct2, THEN conjunct2] s reserve_small_memory(2)
  have 3: "\<exists>s'. getMany small_memory insertion_sort failing_pool (Some skipping) always_noon
            no_replicas = Inr (Inr [], s')"
    by auto
  from n [where P = failing_pool and settings = "Some all_replicas" and envs = always_noon
      and alloc = small_memory, THEN conjunct2, THEN conjunct2] reserve_small_memory(4)
  have 4: "\<exists>s'. getMany small_memory insertion_sort failing_pool (Some all_replicas) always_noon
            no_replicas = Inr (Inl length_error, s')"
    by auto
  from 1 2 3 4 show ?thesis by blast
qed

text \<open>
  Claim C4 as stated fails: with no nested pool and null settings (one connection asked
  for, unavailable shards not skipped), \<open>getMany\<close> does not return the empty list but throws
  from its first iteration.
\<close>

theorem getMany_without_replicas_throws:
  "getMany small_memory insertion_sort failing_pool None always_noon no_replicas =
     Inr (Inl (NetException (''All connection tries failed. Log: '' @ endl @ endl @ endl)
                 ALL_CONNECTION_TRIES_FAILED),
          no_replicas\<lparr>nested_pools := (nested_pools no_replicas)\<lparr>last_decrease_time := 43200\<rparr>,
                       DistributedConnectionFailAtAll := 1\<rparr>)"
  by (simp add: getMany_def reserve_def small_memory_def getMany_loop.simps getResource_def
      update_def failing_pool_def
      no_replicas_def always_noon_def at_noon_def max_connections_of_def
      skip_unavailable_of_def new_ResourceTracker_def getUnallocatedSize_def
      fresh_def make_pool_ptrs_def insertion_sort_def try_loop.simps Let_def
      increment_def all_tries_failed_def)

subsection \<open>The order of probes within a round\<close>

lemma round_probes_append [simp]:
  "round_probes t (xs @ ys) = round_probes t xs @ round_probes t ys"
  by (simp add: round_probes_def)

lemma round_probes_one_round:
  "round_probes t (map (\<lambda>r. (k, pool r)) rs) = (if k = t then map pool rs else [])"
  by (induction rs) (simp_all add: round_probes_def)

lemma round_probes_full_rounds:
  "round_probes t (concat (map (\<lambda>k. map (\<lambda>r. (k, pool r)) rs) [a..<a + m])) =
     (if a \<le> t \<and> t < a + m then map pool rs else [])"
proof (induction m)
  case 0
  show ?case by (auto simp: round_probes_def)
next
  case (Suc m)
  have "[a..<a + Suc m] = [a..<a + m] @ [a + m]" by simp
  then have "round_probes t (concat (map (\<lambda>k. map (\<lambda>r. (k, pool r)) rs) [a..<a + Suc m])) =
      round_probes t (concat (map (\<lambda>k. map (\<lambda>r. (k, pool r)) rs) [a..<a + m]))
      @ round_probes t (map (\<lambda>r. (a + m, pool r)) rs)"
    by (simp del: upt_Suc)
  with Suc show ?case by (auto simp: round_probes_one_round)
qed

lemma round_probes_rounds:
  "\<exists>k \<le> length rs. round_probes t (rounds rs a m n) = map pool (take k rs)"
proof -
  have r: "round_probes t (rounds rs a m n) =
      (if a \<le> t \<and> t < a + m then map pool rs else [])
      @ (if a + m = t then map pool (take n rs) else [])"
    by (simp add: rounds_def round_probes_full_rounds round_probes_one_round)
  show ?thesis
  proof (cases "a \<le> t \<and> t < a + m")
    case True
    with r have "round_probes t (rounds rs a m n) = map pool (take (length rs) rs)" by simp
    then show ?thesis by blast
  next
    case False
    show ?thesis
    proof (cases "a + m = t")
      case True
      with r False have "round_probes t (rounds rs a m n) = map pool (take (min n (length rs)) rs)"
        by (simp add: min_def)
      then show ?thesis by (metis min.cobounded2)
    next
      case False
      with r \<open>\<not> (a \<le> t \<and> t < a + m)\<close>
      have "round_probes t (rounds rs a m n) = map pool (take 0 rs)" by simp
      then show ?thesis by blast
    qed
  qed
qed

lemma compare_priority: "priority a < priority b \<Longrightarrow> compare a b"
  by (simp add: compare_def)

lemma compare_irrefl: "\<not> compare a a"
  by (simp add: compare_def)

lemma candidate_in_pool_ptrs:
  assumes "update env ps = Inr (states, updated)"
    and "i \<in> set (candidates tr (length states))"
  shows "\<exists>r \<in> set (make_pool_ptrs tr states (pools_size_of tr updated)). pool r = i"
proof (cases tr)
  case None
  from update_shape(1) [OF assms(1)] have "length states = length (pools updated)" by simp
  with assms(2) None have i: "i < pools_size_of tr updated"
    by (simp add: candidates_def pools_size_of_def)
  then have "make_pool_ptrs tr states (pools_size_of tr updated) ! i
      \<in> set (make_pool_ptrs tr states (pools_size_of tr updated))" by simp
  moreover from i None have "pool (make_pool_ptrs tr states (pools_size_of tr updated) ! i) = i"
    by (simp add: nth_make_pool_ptrs)
  ultimately show ?thesis by blast
next
  case (Some t)
  with assms(2) obtain k where k: "k < unallocated_size t" "k < length (handles t)"
    "handles t ! k = i"
    by (auto simp: candidates_def in_set_conv_nth)
  with Some have kk: "k < pools_size_of tr updated"
    by (simp add: pools_size_of_def getUnallocatedSize_def)
  then have "make_pool_ptrs tr states (pools_size_of tr updated) ! k
      \<in> set (make_pool_ptrs tr states (pools_size_of tr updated))" by simp
  moreover from kk Some k have "pool (make_pool_ptrs tr states (pools_size_of tr updated) ! k) = i"
    by (simp add: nth_make_pool_ptrs getHandle_def)
  ultimately show ?thesis by blast
qed

lemma getResource_calls:
  assumes "sort_contract std_sort"
    and "update env (nested_pools (sys c)) = Inr (states, updated)"
    and "getResource std_sort P settings env tr c = Inr (res, tr', c')"
  shows "\<exists>m n. tryGet_calls (sys c') = tryGet_calls (sys c)
           @ rounds (std_sort (make_pool_ptrs tr states (pools_size_of tr updated))) 0 m n"
proof (cases res)
  case None
  with assms(3) have "getResource std_sort P settings env tr c = Inr (None, tr', c')" by simp
  with assms(1) obtain states' updated' c1 msgs where
    "update env (nested_pools (sys c)) = Inr (states', updated')"
    "c' = count_fail_at_all c1"
    "loop_effect (with_pools updated' c) c1
       (rounds (std_sort (make_pool_ptrs tr states' (pools_size_of tr updated'))) 0 (max_tries P) 0)
       msgs"
    by (rule getResource_None)
  with assms(2) show ?thesis by (auto simp: loop_effect_def)
next
  case (Some p)
  with assms(3) have "getResource std_sort P settings env tr c = Inr (Some p, tr', c')" by simp
  with assms(1) obtain states' updated' m n msgs where
    "update env (nested_pools (sys c)) = Inr (states', updated')"
    "loop_effect (with_pools updated' c) c'
       (rounds (std_sort (make_pool_ptrs tr states' (pools_size_of tr updated'))) 0 m n) msgs"
    by (rule getResource_Some)
  with assms(2) show ?thesis by (auto simp: loop_effect_def)
qed

text \<open>
  Claim C2.  Let \<open>states\<close> be the snapshot that the call's \<open>update\<close> returns, and \<open>calls\<close> the
  \<^verbatim>\<open>tryGet\<close> calls that one \<open>getResource\<close> makes.  In every round (every \<^verbatim>\<open>try_no\<close>) the pools
  are probed in ascending order of the whole triple: no pool probed later in the round
  compares less than one probed earlier.  In particular, if \<open>i\<close> and \<open>j\<close> are candidates of
  the call, with equal error counts and \<open>i\<close> of smaller priority value, and \<open>j\<close> is probed
  in a round, then \<open>i\<close> is probed in that round too, and earlier.
\<close>

theorem probes_in_key_order:
  assumes "sort_contract std_sort"
    and "update env (nested_pools (sys c)) = Inr (states, updated)"
    and "getResource std_sort P settings env tr c = Inr (res, tr', c')"
  shows "\<exists>calls. tryGet_calls (sys c') = tryGet_calls (sys c) @ calls \<and>
     (\<forall>t. sorted_wrt (\<lambda>a b. \<not> compare (states ! b) (states ! a)) (round_probes t calls)) \<and>
     (\<forall>t i j. i \<in> set (candidates tr (length states)) \<and> j \<in> set (round_probes t calls) \<and>
        priority (states ! i) < priority (states ! j) \<and>
        error_count (states ! i) = error_count (states ! j) \<longrightarrow>
        (\<exists>p q. p < q \<and> q < length (round_probes t calls) \<and>
               round_probes t calls ! p = i \<and> round_probes t calls ! q = j))"
proof -
  let ?ptrs = "make_pool_ptrs tr states (pools_size_of tr updated)"
  let ?rs = "std_sort ?ptrs"
  from getResource_calls [OF assms] obtain m n where
    calls: "tryGet_calls (sys c') = tryGet_calls (sys c) @ rounds ?rs 0 m n" by blast
  have snap: "state_snapshot r = states ! pool r" if "r \<in> set ?rs" for r
    using that in_make_pool_ptrs(3) [of r tr states "pools_size_of tr updated"]
    by (simp add: sort_contract_set [OF assms(1)])
  have sorted: "sorted_wrt (\<lambda>a b. \<not> compare (states ! pool b) (states ! pool a)) ?rs"
    using sort_contract_sorted [OF assms(1), of ?ptrs]
    by (rule sorted_wrt_mono_rel [rotated]) (simp add: snap)
  have a: "sorted_wrt (\<lambda>a b. \<not> compare (states ! b) (states ! a)) (round_probes t (rounds ?rs 0 m n))"
    for t
  proof -
    from round_probes_rounds [of ?rs t 0 m n] obtain k where
      k: "round_probes t (rounds ?rs 0 m n) = map pool (take k ?rs)" by blast
    from sorted have "sorted_wrt (\<lambda>a b. \<not> compare (states ! pool b) (states ! pool a)) (take k ?rs)"
      by (rule sorted_wrt_take)
    then show ?thesis by (simp add: k sorted_wrt_map)
  qed
  have b: "\<exists>p q. p < q \<and> q < length (round_probes t (rounds ?rs 0 m n)) \<and>
               round_probes t (rounds ?rs 0 m n) ! p = i \<and>
               round_probes t (rounds ?rs 0 m n) ! q = j"
    if i: "i \<in> set (candidates tr (length states))"
      and j: "j \<in> set (round_probes t (rounds ?rs 0 m n))"
      and less: "priority (states ! i) < priority (states ! j)"
    for t i j
  proof -
    from round_probes_rounds [of ?rs t 0 m n] obtain k where
      kl: "k \<le> length ?rs" and k: "round_probes t (rounds ?rs 0 m n) = map pool (take k ?rs)"
      by blast
    from j k kl obtain q where q: "q < k" "pool (?rs ! q) = j"
      by (auto simp: in_set_conv_nth)
    from candidate_in_pool_ptrs [OF assms(2) i] obtain r where "r \<in> set ?rs" "pool r = i"
      by (auto simp: sort_contract_set [OF assms(1)])
    then obtain p where p: "p < length ?rs" "pool (?rs ! p) = i"
      by (auto simp: in_set_conv_nth)
    from less have cmp: "compare (states ! i) (states ! j)" by (rule compare_priority)
    have "p < q"
    proof (rule ccontr)
      assume "\<not> p < q"
      then consider "p = q" | "q < p" by linarith
      then show False
      proof cases
        case 1
        with p q less show False by simp
      next
        case 2
        with sorted p(1) have "\<not> compare (states ! pool (?rs ! p)) (states ! pool (?rs ! q))"
          by (simp add: sorted_wrt_iff_nth_less)
        with cmp p q show False by simp
      qed
    qed
    with q kl p show ?thesis
      by - (rule exI [of _ p], rule exI [of _ q], simp add: k)
  qed
  from calls a b show ?thesis by blast
qed

lemma update_two_priorities:
  "update at_noon (nested_pools (sys (fresh two_priorities :: (unit, nat) Ctx))) =
     Inr ([\<lparr>priority = 1, error_count = 0, random = 5\<rparr>,
           \<lparr>priority = 0, error_count = 0, random = 5\<rparr>],
          \<lparr>pools = [\<lparr>state = \<lparr>priority = 1, error_count = 0, random = 5\<rparr>\<rparr>,
                    \<lparr>state = \<lparr>priority = 0, error_count = 0, random = 5\<rparr>\<rparr>],
           last_decrease_time = 43200, decrease_error_period = 300\<rparr>)"
  by (simp add: update_def two_priorities_def at_noon_def randomize_def upt_rec)

lemma getResource_two_priorities:
  "\<exists>c'. getResource insertion_sort failing_pool None at_noon None (fresh two_priorities)
          = Inr (None, None, c') \<and>
        tryGet_calls (sys c') = [(0, 1), (0, 0), (1, 1), (1, 0), (2, 1), (2, 0)]"
  by (simp add: getResource_def update_def failing_pool_def two_priorities_def at_noon_def
      fresh_def make_pool_ptrs_def insertion_sort_def sort_key_of_def try_loop.simps Let_def
      randomize_def increment_def add_error_def set_error_count_def upt_rec)

theorem probes_in_key_order_witness:
  "\<exists>c'. getResource insertion_sort failing_pool None at_noon None (fresh two_priorities)
          = Inr (None, None, c') \<and>
        round_probes 0 (tryGet_calls (sys c')) = [1, 0] \<and>
        (\<exists>p q. p < q \<and> q < length (round_probes 0 (tryGet_calls (sys c'))) \<and>
               round_probes 0 (tryGet_calls (sys c')) ! p = 1 \<and>
               round_probes 0 (tryGet_calls (sys c')) ! q = 0)"
proof -
  from getResource_two_priorities obtain c' where
    g: "getResource insertion_sort failing_pool None at_noon None (fresh two_priorities)
          = Inr (None, None, c')"
    and calls: "tryGet_calls (sys c') = [(0, 1), (0, 0), (1, 1), (1, 0), (2, 1), (2, 0)]"
    by blast
  let ?states = "[\<lparr>priority = 1, error_count = 0, random = 5\<rparr>,
                  \<lparr>priority = 0, error_count = 0, random = 5\<rparr>]"
  from probes_in_key_order [OF insertion_sort_contract update_two_priorities g]
  obtain new where
    n: "tryGet_calls (sys c') = tryGet_calls (sys (fresh two_priorities :: (unit, nat) Ctx)) @ new"
    and b: "\<forall>t i j. i \<in> set (candidates None (length ?states)) \<and> j \<in> set (round_probes t new) \<and>
        priority (?states ! i) < priority (?states ! j) \<and>
        error_count (?states ! i) = error_count (?states ! j) \<longrightarrow>
        (\<exists>p q. p < q \<and> q < length (round_probes t new) \<and>
               round_probes t new ! p = i \<and> round_probes t new ! q = j)"
    by blast
  from n calls have new: "new = [(0, 1), (0, 0), (1, 1), (1, 0), (2, 1), (2, 0)]"
    by (simp add: two_priorities_def)
  have r: "round_probes 0 new = [1, 0]" by (simp add: new round_probes_def)
  from b [rule_format, of 1 0 0] r
  have "\<exists>p q. p < q \<and> q < length (round_probes 0 new) \<and>
               round_probes 0 new ! p = 1 \<and> round_probes 0 new ! q = 0"
    by (simp add: candidates_def upt_rec)
  with g r new calls show ?thesis by simp
qed

end
